theory Spec2Isabelle
  imports Complex_Main
begin

section \<open>External photoevaporation of a disc: DiscEvolution/photoevaporation.py\<close>

text \<open>
  The module works on NumPy arrays of float64. The embedding keeps the special values of
  IEEE arithmetic (the infinities and NaN, which NumPy produces instead of raising) and
  computes exactly on the finite values: rounding, overflow to infinity and the sign of
  zero are not modelled. Every "within tolerance" of the specification is therefore an
  equality here.
\<close>

subsection \<open>Floats\<close>

datatype fl = Fin real | PInf | NInf | NaN

definition inf_sign :: "real \<Rightarrow> fl" where
  "inf_sign a = (if a = 0 then NaN else if 0 < a then PInf else NInf)"

fun fneg :: "fl \<Rightarrow> fl" where
  "fneg (Fin a) = Fin (- a)"
| "fneg PInf = NInf"
| "fneg NInf = PInf"
| "fneg NaN = NaN"

fun fadd :: "fl \<Rightarrow> fl \<Rightarrow> fl" where
  "fadd (Fin a) (Fin b) = Fin (a + b)"
| "fadd NaN _ = NaN"
| "fadd _ NaN = NaN"
| "fadd PInf NInf = NaN"
| "fadd NInf PInf = NaN"
| "fadd PInf _ = PInf"
| "fadd _ PInf = PInf"
| "fadd NInf _ = NInf"
| "fadd _ NInf = NInf"

definition fsub :: "fl \<Rightarrow> fl \<Rightarrow> fl" where
  "fsub a b = fadd a (fneg b)"

fun fmul :: "fl \<Rightarrow> fl \<Rightarrow> fl" where
  "fmul (Fin a) (Fin b) = Fin (a * b)"
| "fmul NaN _ = NaN"
| "fmul _ NaN = NaN"
| "fmul (Fin a) PInf = inf_sign a"
| "fmul PInf (Fin a) = inf_sign a"
| "fmul (Fin a) NInf = inf_sign (- a)"
| "fmul NInf (Fin a) = inf_sign (- a)"
| "fmul PInf PInf = PInf"
| "fmul NInf NInf = PInf"
| "fmul PInf NInf = NInf"
| "fmul NInf PInf = NInf"

text \<open>Division by zero gives an infinity or NaN (NumPy warns and goes on); the zero
  divisor is read as \<open>+0\<close>.\<close>

fun fdiv :: "fl \<Rightarrow> fl \<Rightarrow> fl" where
  "fdiv (Fin a) (Fin b) = (if b = 0 then inf_sign a else Fin (a / b))"
| "fdiv NaN _ = NaN"
| "fdiv _ NaN = NaN"
| "fdiv (Fin a) _ = Fin 0"
| "fdiv PInf (Fin b) = (if 0 \<le> b then PInf else NInf)"
| "fdiv NInf (Fin b) = (if 0 \<le> b then NInf else PInf)"
| "fdiv _ _ = NaN"

text \<open>Comparisons: every comparison with NaN is false.\<close>

fun fgt :: "fl \<Rightarrow> fl \<Rightarrow> bool" where
  "fgt (Fin a) (Fin b) = (b < a)"
| "fgt NaN _ = False"
| "fgt _ NaN = False"
| "fgt PInf PInf = False"
| "fgt PInf _ = True"
| "fgt _ PInf = False"
| "fgt NInf _ = False"
| "fgt _ NInf = True"

definition fge :: "fl \<Rightarrow> fl \<Rightarrow> bool" where
  "fge a b = (fgt a b \<or> (a = b \<and> a \<noteq> NaN))"

definition flt :: "fl \<Rightarrow> fl \<Rightarrow> bool" where
  "flt a b = fgt b a"

definition fle :: "fl \<Rightarrow> fl \<Rightarrow> bool" where
  "fle a b = fge b a"

text \<open>\<open>np.minimum\<close>: NaN if either argument is.\<close>

definition fmin :: "fl \<Rightarrow> fl \<Rightarrow> fl" where
  "fmin a b = (if a = NaN \<or> b = NaN then NaN else if fgt a b then b else a)"

fun fsqrt :: "fl \<Rightarrow> fl" where
  "fsqrt (Fin a) = (if a < 0 then NaN else Fin (sqrt a))"
| "fsqrt PInf = PInf"
| "fsqrt NInf = NaN"
| "fsqrt NaN = NaN"

text \<open>\<open>x ** y\<close> for a finite float exponent \<open>y\<close> (the module's exponents are the
  constants \<open>3/2\<close> and \<open>4 - p\<close>).\<close>

definition fpowr :: "fl \<Rightarrow> real \<Rightarrow> fl" where
  "fpowr x y =
     (if y = 0 then Fin 1
      else case x of
        NaN \<Rightarrow> NaN
      | Fin a \<Rightarrow>
          (if 0 < a then Fin (a powr y)
           else if a = 0 then (if 0 < y then Fin 0 else PInf)
           else if y \<in> \<int> then Fin (a powi \<lfloor>y\<rfloor>)
           else NaN)
      | PInf \<Rightarrow> (if 0 < y then PInf else Fin 0)
      | NInf \<Rightarrow> (if 0 < y then (if y \<in> \<int> \<and> odd \<lfloor>y\<rfloor> then NInf else PInf) else Fin 0))"

text \<open>\<open>np.sum\<close> of a one-dimensional array.\<close>

definition fsum :: "fl list \<Rightarrow> fl" where
  "fsum xs = foldl fadd (Fin 0) xs"

text \<open>A boolean array used as a factor counts as 1.0 and 0.0.\<close>

definition of_bool_fl :: "bool \<Rightarrow> fl" where
  "of_bool_fl b = (if b then Fin 1 else Fin 0)"

subsection \<open>Arrays\<close>

datatype error = IndexError | ValueError

definition bind_res :: "error + 'a \<Rightarrow> ('a \<Rightarrow> error + 'b) \<Rightarrow> error + 'b" where
  "bind_res r f = (case r of Inl e \<Rightarrow> Inl e | Inr v \<Rightarrow> f v)"

text \<open>\<open>xs[i]\<close> for a Python integer \<open>i\<close>: a negative index counts from the end.\<close>

definition py_pos :: "'a list \<Rightarrow> int \<Rightarrow> nat option" where
  "py_pos xs i =
     (if 0 \<le> i then (if i < int (length xs) then Some (nat i) else None)
      else if - int (length xs) \<le> i then Some (nat (int (length xs) + i))
      else None)"

definition py_index :: "'a list \<Rightarrow> int \<Rightarrow> error + 'a" where
  "py_index xs i = (case py_pos xs i of None \<Rightarrow> Inl IndexError | Some k \<Rightarrow> Inr (xs ! k))"

definition py_update :: "'a list \<Rightarrow> int \<Rightarrow> 'a \<Rightarrow> error + 'a list" where
  "py_update xs i v = (case py_pos xs i of None \<Rightarrow> Inl IndexError | Some k \<Rightarrow> Inr (xs[k := v]))"

text \<open>\<open>xs[mask]\<close>, \<open>xs[mask] = v\<close> and \<open>xs[mask] = vs\<close> for a boolean mask as long as
  \<open>xs\<close>. Where the module can meet a mask of another length (NumPy raises IndexError),
  the functions below test the lengths first.\<close>

fun compress :: "bool list \<Rightarrow> 'a list \<Rightarrow> 'a list" where
  "compress (m # ms) (x # xs) = (if m then x # compress ms xs else compress ms xs)"
| "compress _ _ = []"

fun mask_fill :: "bool list \<Rightarrow> 'a list \<Rightarrow> 'a \<Rightarrow> 'a list" where
  "mask_fill (m # ms) (x # xs) v = (if m then v else x) # mask_fill ms xs v"
| "mask_fill _ xs _ = xs"

fun scatter :: "bool list \<Rightarrow> 'a list \<Rightarrow> 'a list \<Rightarrow> 'a list" where
  "scatter (True # ms) (x # xs) (v # vs) = v # scatter ms xs vs"
| "scatter (False # ms) (x # xs) vs = x # scatter ms xs vs"
| "scatter _ xs _ = xs"

text \<open>\<open>xs * ys\<close> on one-dimensional arrays, with NumPy's broadcasting of a length-one
  array; other length mismatches raise ValueError.\<close>

definition np_mul :: "fl list \<Rightarrow> fl list \<Rightarrow> error + fl list" where
  "np_mul xs ys =
     (if length xs = length ys then Inr (map2 fmul xs ys)
      else if length xs = 1 then Inr (map (fmul (hd xs)) ys)
      else if length ys = 1 then Inr (map (\<lambda>x. fmul x (hd ys)) xs)
      else Inl ValueError)"

text \<open>\<open>np.cumsum\<close>.\<close>

fun cumsum_from :: "fl \<Rightarrow> fl list \<Rightarrow> fl list" where
  "cumsum_from acc [] = []"
| "cumsum_from acc (x # xs) = fadd acc x # cumsum_from (fadd acc x) xs"

fun cumsum :: "fl list \<Rightarrow> fl list" where
  "cumsum [] = []"
| "cumsum (x # xs) = x # cumsum_from x xs"

text \<open>\<open>np.argmax\<close>: the first index of the maximum; a NaN counts as the maximum and
  ends the scan; an empty array raises ValueError.\<close>

fun argmax_from :: "nat \<Rightarrow> fl \<Rightarrow> nat \<Rightarrow> fl list \<Rightarrow> nat" where
  "argmax_from best mp i [] = best"
| "argmax_from best mp i (x # xs) =
     (if mp = NaN then best
      else if fle x mp then argmax_from best mp (Suc i) xs
      else argmax_from i x (Suc i) xs)"

definition argmax :: "fl list \<Rightarrow> error + nat" where
  "argmax xs = (case xs of [] \<Rightarrow> Inl ValueError | x # rest \<Rightarrow> Inr (argmax_from 0 x 1 rest))"

text \<open>\<open>a.sum(0)\<close> of a two-dimensional array given by its rows: the sum of the rows.\<close>

definition sum0 :: "fl list list \<Rightarrow> fl list" where
  "sum0 rows = (case rows of [] \<Rightarrow> [] | r # rs \<Rightarrow> foldl (\<lambda>acc row. map2 fadd acc row) r rs)"

subsection \<open>The disc, the unit constants and the rate providers\<close>

text \<open>
  The module imports the constants \<open>AU\<close>, \<open>Msun\<close>, \<open>yr\<close> and \<open>Mjup\<close> and reads the disc
  through attributes of classes that are defined elsewhere in the package. They are
  parameters here. A \<open>disc\<close> holds what the module reads of a disc of \<open>N\<close> annuli:
  \<open>R\<close>, \<open>Sigma\<close>, \<open>Sigma_G\<close>, \<open>H\<close>, \<open>cs\<close> with \<open>N\<close> entries, \<open>R_edge\<close> with \<open>N + 1\<close>.
  \<open>Sigma'\<close> is the array \<open>disc._Sigma\<close> (read as \<open>disc.Sigma\<close>), which the removal
  functions write. \<open>Sigma_G\<close>, \<open>Sigma_D\<close>, \<open>dust_frac\<close> and \<open>integ_dust_frac\<close> are
  computed properties of the disc classes: the record holds the values a call reads,
  and every such read comes before the call's first write. \<open>dusty\<close> is \<open>Some\<close> for an
  instance of \<open>DustyDisc\<close>.
\<close>

record units =
  AU :: real
  Msun :: real
  yr :: real
  Mjup :: real

record dust =
  Sigma_D :: "fl list list"
  dust_frac :: "fl list list"
  integ_dust_frac :: "fl list"
  grain_size :: "fl list list"
  dust_p :: real
  rho_s :: fl
  eps :: "fl list list"
  Mwind_cum :: fl

record disc =
  R :: "fl list"
  R_edge :: "fl list"
  Sigma' :: "fl list"
  Sigma_G :: "fl list"
  H :: "fl list"
  cs :: "fl list"
  star_M :: fl
  dusty :: "dust option"

text \<open>\<open>self._Mdot\<close> is a float when a fixed-rate provider is built and an array once
  \<open>np.append\<close> has written it; \<open>self._amax\<close> is an array over the annuli. \<open>PE_rate\<close> is
  the lookup of the rate table (\<open>self.FRIED_Rates.PE_rate\<close>), applied entry by entry;
  it may answer NaN.\<close>

datatype kind =
  FixedExternalEvaporation
| FRIEDExternalEvaporationS
| FRIEDExternalEvaporationMS
| FRIEDExternalEvaporationM

datatype attr = Scalar fl | Arr "fl list"

record provider =
  kind :: kind
  self_Mdot :: attr
  self_amax :: "fl list"
  PE_rate :: "fl \<Rightarrow> fl \<Rightarrow> fl"

definition np_append :: "attr \<Rightarrow> fl \<Rightarrow> attr" where
  "np_append a v = (case a of Scalar x \<Rightarrow> Arr [x, v] | Arr xs \<Rightarrow> Arr (xs @ [v]))"

definition attr_mul :: "attr \<Rightarrow> fl list \<Rightarrow> error + fl list" where
  "attr_mul a ys = (case a of Scalar x \<Rightarrow> Inr (map (fmul x) ys) | Arr xs \<Rightarrow> np_mul xs ys)"

text \<open>\<open>Re = disc.R_edge * AU; dA = np.pi * (Re[1:] ** 2 - Re[:-1] ** 2)\<close>\<close>

definition annulus_areas :: "units \<Rightarrow> disc \<Rightarrow> fl list" where
  "annulus_areas u d =
     (let edges = map (\<lambda>r. fmul r (Fin (AU u))) (R_edge d)
      in map2 (\<lambda>outer inner. fmul (Fin pi) (fsub (fmul outer outer) (fmul inner inner)))
           (tl edges) (butlast edges))"

definition gas_present :: "disc \<Rightarrow> bool list" where
  "gas_present d = map (\<lambda>s. fgt s (Fin 0)) (Sigma_G d)"

subsection \<open>mass\_loss\_rate\<close>

text \<open>The body shared by the three table providers: zeros, the table's answers at the
  selected annuli, and the floor \<open>1e-10\<close> wherever the array holds NaN.\<close>

definition floor_rate :: fl where
  "floor_rate = Fin (1 / 10 ^ 10)"

definition lookup_rates :: "(fl \<Rightarrow> fl \<Rightarrow> fl) \<Rightarrow> fl list \<Rightarrow> fl list \<Rightarrow> bool list \<Rightarrow> fl list" where
  "lookup_rates pe key radii not_empty =
     scatter not_empty (map (\<lambda>_. Fin 0) radii)
       (map2 pe (compress not_empty key) (compress not_empty radii))"

definition table_rates :: "(fl \<Rightarrow> fl \<Rightarrow> fl) \<Rightarrow> fl list \<Rightarrow> fl list \<Rightarrow> bool list \<Rightarrow> fl list" where
  "table_rates pe key radii not_empty =
     (let calc_rates = lookup_rates pe key radii not_empty;
          norate = map (\<lambda>x. x = NaN) calc_rates
      in mask_fill norate calc_rates floor_rate)"

definition integ_mass :: "units \<Rightarrow> disc \<Rightarrow> fl list" where
  "integ_mass u d =
     map (\<lambda>m. fdiv m (Fin (Mjup u))) (cumsum (map2 fmul (Sigma_G d) (annulus_areas u d)))"

definition mass_loss_rate :: "units \<Rightarrow> provider \<Rightarrow> disc \<Rightarrow> bool list \<Rightarrow> error + fl list" where
  "mass_loss_rate u prov d not_empty =
     (case kind prov of
        FixedExternalEvaporation \<Rightarrow>
          attr_mul (self_Mdot prov) (map (\<lambda>_. Fin 1) (compress not_empty (Sigma' d)))
      | FRIEDExternalEvaporationS \<Rightarrow>
          Inr (table_rates (PE_rate prov) (Sigma_G d) (R d) not_empty)
      | FRIEDExternalEvaporationMS \<Rightarrow>
          Inr (table_rates (PE_rate prov) (Sigma_G d) (R d) not_empty)
      | FRIEDExternalEvaporationM \<Rightarrow>
          Inr (table_rates (PE_rate prov) (integ_mass u d) (R d) not_empty))"

subsection \<open>unweighted\_rates and get\_timescale\<close>

definition unweighted_rates ::
  "units \<Rightarrow> provider \<Rightarrow> disc \<Rightarrow> bool \<Rightarrow> error + ((fl list \<times> fl list) \<times> provider)" where
  "unweighted_rates u prov d Track =
     (let not_empty = gas_present d;
          dM_gas = map2 fmul (Sigma_G d) (annulus_areas u d)
      in bind_res (mass_loss_rate u prov d not_empty) (\<lambda>rates.
           let dM_dot = map (\<lambda>m. fdiv (fmul m (Fin (Msun u))) (Fin (2 * pi))) rates
           in if Track then
                (if length dM_dot \<noteq> length not_empty then Inl IndexError
                 else bind_res (py_index (compress not_empty dM_dot) (- 1)) (\<lambda>v.
                   Inr ((dM_dot, dM_gas),
                        prov\<lparr>self_Mdot :=
                          np_append (self_Mdot prov) (fmul v (Fin (yr u / Msun u)))\<rparr>)))
              else Inr ((dM_dot, dM_gas), prov)))"

definition get_timescale ::
  "units \<Rightarrow> provider \<Rightarrow> disc \<Rightarrow> bool
     \<Rightarrow> error + ((fl list \<times> fl list \<times> fl list \<times> fl list) \<times> provider)" where
  "get_timescale u prov d Track =
     bind_res (unweighted_rates u prov d Track) (\<lambda>((dM_evap, dM_gas), prov').
       let not_empty = gas_present d;
           M_tot = rev (cumsum (rev dM_gas))
       in if length dM_evap \<noteq> length not_empty then Inl IndexError
          else
            (let Dt_R = map2 fdiv (compress not_empty dM_gas) (compress not_empty dM_evap);
                 n = length (Sigma_G d);
                 Dt_R' = Dt_R @ replicate (n - length Dt_R) (Fin 0);
                 dM_evap' = dM_evap @ replicate (n - length dM_evap) (Fin 0);
                 Dt = rev (cumsum (rev Dt_R'))
             in Inr ((dM_evap', dM_gas, M_tot, Dt), prov')))"

subsection \<open>timescale\_remove\<close>

definition timescale_remove ::
  "units \<Rightarrow> provider \<Rightarrow> disc \<Rightarrow> fl \<Rightarrow> bool \<Rightarrow> error + (disc \<times> provider)" where
  "timescale_remove u prov d dt Track =
     bind_res (get_timescale u prov d Track) (\<lambda>((dM_evap, dM_tot, M_tot, Dt), prov').
       let excess_t = map (\<lambda>t. fsub dt t) Dt;
           empty = map (\<lambda>e. fgt e (Fin 0)) excess_t;
           Sigma1 = mask_fill empty (Sigma' d) (Fin 0);
           n_empty = int (length (filter id empty))
       in if n_empty < int (length (Sigma_G d)) then
            (let half_empty = - (n_empty + 1)
             in bind_res (py_index Sigma1 half_empty) (\<lambda>s.
                bind_res (py_index excess_t half_empty) (\<lambda>e.
                bind_res (py_index Dt half_empty) (\<lambda>t.
                bind_res (py_index Dt (half_empty + 1)) (\<lambda>t1.
                bind_res (py_update Sigma1 half_empty
                            (fmul s (fdiv (fmul (Fin (- 1)) e) (fsub t t1)))) (\<lambda>Sigma2.
                  Inr (d\<lparr>Sigma' := Sigma2\<rparr>, prov')))))))
          else Inr (d\<lparr>Sigma' := Sigma1\<rparr>, prov'))"

subsection \<open>optically\_thin\_weighting\<close>

text \<open>\<open>i_max = np.size(Mdot) - np.argmax(Mdot[::-1]) - 1\<close>\<close>

definition transition_index :: "fl list \<Rightarrow> error + nat" where
  "transition_index rates = bind_res (argmax (rev rates)) (\<lambda>a. Inr (length rates - a - 1))"

text \<open>The index that \<open>optically_thin_weighting\<close> computes for a disc (lines 84 to 87).\<close>

definition i_max_of :: "units \<Rightarrow> provider \<Rightarrow> disc \<Rightarrow> error + nat" where
  "i_max_of u prov d =
     bind_res (unweighted_rates u prov d False) (\<lambda>((rates, dM_gas), prov0).
       transition_index rates)"

text \<open>The specification's reading of that index, "the first local maximum found from
  outside": start at the outermost annulus and step inward for as long as the next rate is
  strictly greater.\<close>

fun climb :: "fl list \<Rightarrow> nat" where
  "climb (x # y # ys) = (if fgt y x then Suc (climb (y # ys)) else 0)"
| "climb _ = 0"

definition first_local_max_from_outside :: "fl list \<Rightarrow> nat" where
  "first_local_max_from_outside rates = length rates - 1 - climb (rev rates)"

definition first_local_max_of :: "units \<Rightarrow> provider \<Rightarrow> disc \<Rightarrow> error + nat" where
  "first_local_max_of u prov d =
     bind_res (unweighted_rates u prov d False) (\<lambda>((rates, dM_gas), prov0).
       Inr (first_local_max_from_outside rates))"

text \<open>The weights \<open>s_weight\<close> of the function, from \<open>ot_radii\<close> to \<open>s_weight *= ot_radii\<close>.\<close>

definition ot_radii :: "disc \<Rightarrow> fl \<Rightarrow> bool list" where
  "ot_radii d r_max = map (\<lambda>r. fge r r_max) (R d)"

definition ot_weights :: "disc \<Rightarrow> nat \<Rightarrow> error + fl list" where
  "ot_weights d i_max =
     bind_res (py_index (R d) (int i_max)) (\<lambda>r_max.
       let s = map2 (\<lambda>r g. fmul (fpowr r (3 / 2)) g) (R d) (Sigma_G d);
           s_tot = fsum (compress (ot_radii d r_max) s);
           s_weight = map (\<lambda>x. fdiv x s_tot) s
       in Inr (map2 (\<lambda>w b. fmul w (of_bool_fl b)) s_weight (ot_radii d r_max)))"

definition optically_thin_weighting ::
  "units \<Rightarrow> provider \<Rightarrow> disc \<Rightarrow> bool \<Rightarrow> error + ((fl list \<times> fl list) \<times> provider)" where
  "optically_thin_weighting u prov d Track =
     bind_res (unweighted_rates u prov d False) (\<lambda>((rates, dM_gas), prov0).
     bind_res (transition_index rates) (\<lambda>i_max.
     bind_res (ot_weights d i_max) (\<lambda>s_weight.
     bind_res (np_mul rates s_weight) (\<lambda>contrib.
       let M_dot_tot = fsum contrib;
           M_dot_eff = map (fmul M_dot_tot) s_weight
       in Inr ((M_dot_eff, dM_gas),
               if Track
               then prov0\<lparr>self_Mdot :=
                      np_append (self_Mdot prov0) (fmul M_dot_tot (Fin (yr u / Msun u)))\<rparr>
               else prov0)))))"

subsection \<open>Dust entrainment\<close>

definition Facchini_limit :: "units \<Rightarrow> disc \<Rightarrow> dust \<Rightarrow> fl list \<Rightarrow> fl list" where
  "Facchini_limit u d ds rate =
     (let F = map2 (\<lambda>h r. fdiv h (fsqrt (fadd (fmul h h) (fmul r r)))) (H d) (R d);
          rho = rho_s ds;
          Mstar = star_M d;
          v_th = map (\<lambda>c. fmul (Fin (sqrt (8 / pi))) c) (cs d);
          a_entr = map2 (\<lambda>(v, m) f.
                      fdiv (fmul v m) (fmul (fmul (fmul (fmul Mstar (Fin 4)) (Fin pi)) f) rho))
                    (zip v_th rate) F
      in map (\<lambda>a. fmul a (Fin (Msun u / (AU u) ^ 2 / yr u))) a_entr)"

text \<open>Line 162: the entrained fraction of the annuli that hold gas.\<close>

definition f_ent :: "provider \<Rightarrow> disc \<Rightarrow> dust \<Rightarrow> fl list" where
  "f_ent prov d ds =
     (let a_ent = self_amax prov;
          a_max = grain_size ds ! 1;
          not_empty = gas_present d
      in map2 (\<lambda>one q. fmin one (fpowr q (4 - dust_p ds)))
           (compress not_empty (map (\<lambda>_. Fin 1) a_max))
           (map2 fdiv (compress not_empty a_ent) (compress not_empty a_max)))"

text \<open>\<open>M_dust.sum(0)\<close> for \<open>M_dust = disc.Sigma_D * dA\<close>: the dust mass of each annulus.\<close>

definition M_dust_sum :: "units \<Rightarrow> disc \<Rightarrow> dust \<Rightarrow> fl list" where
  "M_dust_sum u d ds =
     (let dA = annulus_areas u d;
          M_dust = map (\<lambda>row. map2 fmul row dA) (Sigma_D ds)
      in sum0 M_dust)"

definition dust_entrainment :: "units \<Rightarrow> provider \<Rightarrow> disc \<Rightarrow> dust \<Rightarrow> fl list" where
  "dust_entrainment u prov d ds =
     (let not_empty = gas_present d;
          M_ent = map (\<lambda>_. Fin 0) (Sigma' d)
      in scatter not_empty M_ent
           (map2 fmul (compress not_empty (M_dust_sum u d ds)) (f_ent prov d ds)))"

subsection \<open>weighted\_removal\<close>

text \<open>Lines 122 to 127: \<open>disc._Sigma -= dM_dot * dt / dA\<close>, the gas that is lost.\<close>

definition gas_removal :: "units \<Rightarrow> disc \<Rightarrow> fl list \<Rightarrow> fl \<Rightarrow> fl list" where
  "gas_removal u d dM_dot dt =
     (let dA = annulus_areas u d;
          dM_evap = map (\<lambda>m. fmul m dt) dM_dot
      in map2 fsub (Sigma' d) (map2 fdiv dM_evap dA))"

definition entrained_removed :: "fl list \<Rightarrow> fl list \<Rightarrow> fl list \<Rightarrow> fl list" where
  "entrained_removed M_ent dM_evap dM_gas =
     (let has_gas = map (\<lambda>g. fgt g (Fin 0)) dM_gas
      in scatter has_gas (map (\<lambda>_. Fin 0) M_ent)
           (map2 fdiv (map2 fmul (compress has_gas M_ent) (compress has_gas dM_evap))
              (compress has_gas dM_gas)))"

definition weighted_removal ::
  "units \<Rightarrow> provider \<Rightarrow> disc \<Rightarrow> fl \<Rightarrow> bool \<Rightarrow> error + (disc \<times> provider)" where
  "weighted_removal u prov d dt Track =
     bind_res (optically_thin_weighting u prov d Track) (\<lambda>((dM_dot, dM_gas), prov1).
       case dusty d of
         None \<Rightarrow> Inr (d\<lparr>Sigma' := gas_removal u d dM_dot dt\<rparr>, prov1)
       | Some ds \<Rightarrow>
          (let zeros = map (\<lambda>_. Fin 0) (Sigma' d);
               Sigma_D0 = sum0 (Sigma_D ds);
               not_dustless = map (\<lambda>x. fgt x (Fin 0)) Sigma_D0;
               f_m = scatter not_dustless zeros
                       (map2 fdiv (compress not_dustless (dust_frac ds ! 1))
                          (compress not_dustless (integ_dust_frac ds)));
               prov2 = prov1\<lparr>self_amax :=
                         Facchini_limit u d ds
                           (map (\<lambda>m. fmul (fmul (fsum dM_dot) (of_bool_fl (fgt m (Fin 0))))
                                        (Fin (yr u / Msun u))) dM_dot)\<rparr>;
               M_ent = dust_entrainment u prov2 d ds;
               dA = annulus_areas u d;
               dM_evap = map (\<lambda>m. fmul m dt) dM_dot;
               Sigma1 = gas_removal u d dM_dot dt;
               M_ent_w = entrained_removed M_ent dM_evap dM_gas;
               Sigma2 = map2 fsub Sigma1 (map2 fdiv M_ent_w dA);
               not_empty = map (\<lambda>s. fgt s (Fin 0)) Sigma2;
               new_Sigma_D = map2 fsub (compress not_empty Sigma_D0)
                               (map2 fdiv (compress not_empty M_ent_w) (compress not_empty dA));
               new_dust_frac = scatter not_empty zeros
                                 (map2 fdiv new_Sigma_D (compress not_empty Sigma2));
               eps0 = scatter not_empty (eps ds ! 0)
                        (map2 fmul (compress not_empty new_dust_frac)
                           (map (\<lambda>f. fsub (Fin 1) f) (compress not_empty f_m)));
               eps1 = scatter not_empty (eps ds ! 1)
                        (map2 fmul (compress not_empty new_dust_frac) (compress not_empty f_m))
           in Inr (d\<lparr>Sigma' := Sigma2,
                      dusty := Some (ds\<lparr>eps := (eps ds)[0 := eps0, 1 := eps1],
                                         Mwind_cum := fadd (Mwind_cum ds) (fsum M_ent_w)\<rparr>)\<rparr>,
                   prov2)))"

text \<open>The disc contract: the lengths of the arrays of a disc of \<open>n\<close> annuli.\<close>

definition wf_disc :: "disc \<Rightarrow> nat \<Rightarrow> bool" where
  "wf_disc d n =
     (length (R d) = n \<and> length (R_edge d) = Suc n \<and> length (Sigma' d) = n \<and>
      length (Sigma_G d) = n \<and> length (H d) = n \<and> length (cs d) = n)"

subsection \<open>The key of the table lookup, and example inputs\<close>

text \<open>What a table provider looks up for an annulus, next to its radius: the integrated
  mass for \<open>FRIEDExternalEvaporationM\<close>, the gas surface density for the other two.\<close>

definition table_key :: "units \<Rightarrow> provider \<Rightarrow> disc \<Rightarrow> fl list" where
  "table_key u prov d =
     (if kind prov = FRIEDExternalEvaporationM then integ_mass u d else Sigma_G d)"

text \<open>The unit constants in cgs units: the astronomical unit in cm, the masses of the Sun
  and of Jupiter in g, the year in s. The general statements below hold for all positive
  constants; only the size of the negative value in \<open>weighted_removal_negative\<close>
  depends on these numbers.\<close>

definition units0 :: units where
  "units0 = \<lparr>AU = 1496 * 10 ^ 10, Msun = 1989 * 10 ^ 30, yr = 3156 * 10 ^ 4, Mjup = 1898 * 10 ^ 27\<rparr>"

text \<open>A disc of three annuli, the outermost without gas.\<close>

definition disc0 :: disc where
  "disc0 = \<lparr>R = [Fin 1, Fin 2, Fin 3], R_edge = [Fin (1/2), Fin (3/2), Fin (5/2), Fin (7/2)],
            Sigma' = [Fin 10, Fin 4, Fin 0], Sigma_G = [Fin 10, Fin 4, Fin 0],
            H = [Fin (1/10), Fin (1/5), Fin (3/10)], cs = [Fin 1, Fin 1, Fin 1],
            star_M = Fin 1, dusty = None\<rparr>"

text \<open>A disc with dust in its innermost annulus only, and a fixed-rate provider whose
  entrained size equals the size of the large grains.\<close>

definition dust1 :: dust where
  "dust1 = \<lparr>Sigma_D = [[Fin (1/10), Fin 0, Fin 0], [Fin (1/10), Fin 0, Fin 0]],
            dust_frac = [[Fin (1/100), Fin 0, Fin 0], [Fin (1/100), Fin 0, Fin 0]],
            integ_dust_frac = [Fin (1/50), Fin 0, Fin 0],
            grain_size = [[Fin (1/10000), Fin (1/10000), Fin (1/10000)],
                          [Fin (1/10), Fin (1/10), Fin (1/10)]],
            dust_p = 7/2, rho_s = Fin 1,
            eps = [[Fin (1/100), Fin 0, Fin 0], [Fin (1/100), Fin 0, Fin 0]],
            Mwind_cum = Fin 0\<rparr>"

definition disc1 :: disc where
  "disc1 = \<lparr>R = [Fin 1, Fin 2, Fin 3], R_edge = [Fin (1/2), Fin (3/2), Fin (5/2), Fin (7/2)],
            Sigma' = [Fin 10, Fin 4, Fin 1], Sigma_G = [Fin (49/5), Fin 4, Fin 1],
            H = [Fin (1/10), Fin (1/5), Fin (3/10)], cs = [Fin 1, Fin 1, Fin 1],
            star_M = Fin 1, dusty = Some dust1\<rparr>"

definition prov1 :: provider where
  "prov1 = \<lparr>kind = FixedExternalEvaporation, self_Mdot = Scalar (Fin (1 / 10 ^ 8)),
             self_amax = [Fin (1/10), Fin (1/10), Fin (1/10)], PE_rate = (\<lambda>x r. NaN)\<rparr>"

text \<open>A disc with a ring (surface densities 5, 1, 3, 2 from the inside out) and a table
  whose rate is the surface density.\<close>

definition disc2 :: disc where
  "disc2 = \<lparr>R = [Fin 1, Fin 2, Fin 3, Fin 4],
            R_edge = [Fin (1/2), Fin (3/2), Fin (5/2), Fin (7/2), Fin (9/2)],
            Sigma' = [Fin 5, Fin 1, Fin 3, Fin 2], Sigma_G = [Fin 5, Fin 1, Fin 3, Fin 2],
            H = [Fin (1/10), Fin (1/5), Fin (3/10), Fin (2/5)],
            cs = [Fin 1, Fin 1, Fin 1, Fin 1], star_M = Fin 1, dusty = None\<rparr>"

definition prov2 :: provider where
  "prov2 = \<lparr>kind = FRIEDExternalEvaporationS, self_Mdot = Arr [],
             self_amax = [Fin 0, Fin 0, Fin 0, Fin 0], PE_rate = (\<lambda>x r. x)\<rparr>"

text \<open>A disc whose raw rates (with the table of \<open>prov2\<close>) have their single maximum at
  the interior annulus 1.\<close>

definition disc3 :: disc where
  "disc3 = \<lparr>R = [Fin 1, Fin 2, Fin 3, Fin 4],
            R_edge = [Fin (1/2), Fin (3/2), Fin (5/2), Fin (7/2), Fin (9/2)],
            Sigma' = [Fin 1, Fin 5, Fin 3, Fin 2], Sigma_G = [Fin 1, Fin 5, Fin 3, Fin 2],
            H = [Fin (1/10), Fin (1/5), Fin (3/10), Fin (2/5)],
            cs = [Fin 1, Fin 1, Fin 1, Fin 1], star_M = Fin 1, dusty = None\<rparr>"

text \<open>A disc of five annuli with the uniform surface density 10; the fixed-rate provider
  as \<open>FixedExternalEvaporation(disc)\<close> builds it (\<open>Mdot = 1e-8\<close>, \<open>amax = 10\<close>); and a
  table provider whose rate grows with the radius, \<open>1e-8 * R\<close>.\<close>

definition disc5 :: disc where
  "disc5 = \<lparr>R = [Fin 1, Fin 2, Fin 3, Fin 4, Fin 5],
            R_edge = [Fin (1/2), Fin (3/2), Fin (5/2), Fin (7/2), Fin (9/2), Fin (11/2)],
            Sigma' = [Fin 10, Fin 10, Fin 10, Fin 10, Fin 10],
            Sigma_G = [Fin 10, Fin 10, Fin 10, Fin 10, Fin 10],
            H = [Fin (1/10), Fin (1/5), Fin (3/10), Fin (2/5), Fin (1/2)],
            cs = [Fin 1, Fin 1, Fin 1, Fin 1, Fin 1], star_M = Fin 1, dusty = None\<rparr>"

definition provF :: provider where
  "provF = \<lparr>kind = FixedExternalEvaporation, self_Mdot = Scalar (Fin (1 / 10 ^ 8)),
             self_amax = [Fin 10, Fin 10, Fin 10, Fin 10, Fin 10], PE_rate = (\<lambda>x r. NaN)\<rparr>"

definition provT :: provider where
  "provT = \<lparr>kind = FRIEDExternalEvaporationS, self_Mdot = Arr [],
             self_amax = [Fin 0, Fin 0, Fin 0, Fin 0, Fin 0],
             PE_rate = (\<lambda>x r. fmul r (Fin (1 / 10 ^ 8)))\<rparr>"

text \<open>The scenario of the specification: the depletion time that \<open>get_timescale\<close> computes
  for the outermost annulus (\<open>Dt[-1]\<close>), and one call of \<open>timescale_remove\<close> with half of it.
  \<open>Sigma_after\<close> reads the \<open>Sigma\<close> array that a call leaves.\<close>

definition Sigma_after :: "error + (disc \<times> provider) \<Rightarrow> error + fl list" where
  "Sigma_after r = (case r of Inl e \<Rightarrow> Inl e | Inr (d, p) \<Rightarrow> Inr (Sigma' d))"

definition outer_depletion_time :: "units \<Rightarrow> provider \<Rightarrow> disc \<Rightarrow> error + fl" where
  "outer_depletion_time u prov d =
     bind_res (get_timescale u prov d False) (\<lambda>((dM_evap, dM_gas, M_tot, Dt), prov').
       py_index Dt (- 1))"

definition half_depletion_step :: "units \<Rightarrow> provider \<Rightarrow> disc \<Rightarrow> error + (disc \<times> provider)" where
  "half_depletion_step u prov d =
     bind_res (outer_depletion_time u prov d) (\<lambda>T.
       timescale_remove u prov d (fdiv T (Fin 2)) True)"

text \<open>A table that answers NaN above its grid (surface densities over 5).\<close>

definition table0 :: "fl \<Rightarrow> fl \<Rightarrow> fl" where
  "table0 x r = (if fgt x (Fin 5) then NaN else fmul x r)"

definition prov0 :: provider where
  "prov0 = \<lparr>kind = FRIEDExternalEvaporationS, self_Mdot = Arr [],
             self_amax = [Fin 0, Fin 0, Fin 0], PE_rate = table0\<rparr>"

section \<open>Properties\<close>

lemma bind_res_simps:
  "bind_res (Inl e) f = Inl e"
  "bind_res (Inr v) f = f v"
  by (simp_all add: bind_res_def)

subsection \<open>Arrays\<close>

lemma length_mask_fill [simp]: "length (mask_fill m xs v) = length xs"
  by (induction m xs v rule: mask_fill.induct) auto

lemma nth_mask_fill:
  "length m = length xs \<Longrightarrow> i < length xs \<Longrightarrow> mask_fill m xs v ! i = (if m ! i then v else xs ! i)"
  by (induction m xs v arbitrary: i rule: mask_fill.induct) (auto simp: nth_Cons')

lemma length_scatter [simp]: "length (scatter m xs vs) = length xs"
  by (induction m xs vs rule: scatter.induct) auto

lemma length_compress_le: "length (compress m xs) \<le> length xs"
  by (induction m xs rule: compress.induct) auto

lemma compress_zip: "compress m (zip xs ys) = zip (compress m xs) (compress m ys)"
proof (induction m arbitrary: xs ys)
  case Nil
  then show ?case by simp
next
  case (Cons b m)
  show ?case
  proof (cases xs)
    case Nil
    then show ?thesis by simp
  next
    case xs: (Cons x xs')
    show ?thesis
    proof (cases ys)
      case Nil
      then show ?thesis using xs by (cases b) auto
    next
      case (Cons y ys')
      then show ?thesis using xs Cons.IH by auto
    qed
  qed
qed

lemma compress_map: "compress m (map f xs) = map f (compress m xs)"
  by (induction m xs rule: compress.induct) auto

lemma scatter_compress_nth:
  "length m = length xs \<Longrightarrow> length ys = length xs \<Longrightarrow> i < length xs \<Longrightarrow>
   scatter m xs (compress m ys) ! i = (if m ! i then ys ! i else xs ! i)"
proof (induction m arbitrary: xs ys i)
  case Nil
  then show ?case by simp
next
  case (Cons b m)
  then obtain x xs' y ys' where e: "xs = x # xs'" "ys = y # ys'"
    by (metis length_Suc_conv)
  show ?case using Cons e by (cases b; cases i) auto
qed

lemma lookup_rates_nth:
  assumes "length not_empty = n" "length key = n" "length radii = n" "i < n"
  shows "lookup_rates pe key radii not_empty ! i =
           (if not_empty ! i then pe (key ! i) (radii ! i) else Fin 0)"
proof -
  have "map2 pe (compress not_empty key) (compress not_empty radii)
          = compress not_empty (map2 pe key radii)"
    by (simp add: compress_zip compress_map)
  then show ?thesis
    using assms by (simp add: lookup_rates_def scatter_compress_nth)
qed

lemma length_lookup_rates [simp]: "length (lookup_rates pe key radii not_empty) = length radii"
  by (simp add: lookup_rates_def)

lemma length_table_rates [simp]: "length (table_rates pe key radii not_empty) = length radii"
  by (simp add: table_rates_def Let_def)

lemma table_rates_nth:
  assumes "i < length radii"
  shows "table_rates pe key radii not_empty ! i =
           (if lookup_rates pe key radii not_empty ! i = NaN then floor_rate
            else lookup_rates pe key radii not_empty ! i)"
  using assms by (simp add: table_rates_def Let_def nth_mask_fill)

lemma table_rates_no_nan: "NaN \<notin> set (table_rates pe key radii not_empty)"
  by (auto simp: in_set_conv_nth table_rates_nth floor_rate_def)

lemma length_cumsum_from [simp]: "length (cumsum_from a xs) = length xs"
  by (induction xs arbitrary: a) auto

lemma length_cumsum [simp]: "length (cumsum xs) = length xs"
  by (cases xs) auto

lemma length_annulus_areas [simp]: "length (annulus_areas u d) = length (R_edge d) - 1"
  by (simp add: annulus_areas_def Let_def)

lemma length_integ_mass:
  "wf_disc d n \<Longrightarrow> length (integ_mass u d) = n"
  by (simp add: integ_mass_def wf_disc_def)

lemma length_table_key: "wf_disc d n \<Longrightarrow> length (table_key u prov d) = n"
  by (simp add: table_key_def length_integ_mass) (simp add: wf_disc_def)

lemma mass_loss_rate_table:
  "kind prov \<noteq> FixedExternalEvaporation \<Longrightarrow>
   mass_loss_rate u prov d not_empty =
     Inr (table_rates (PE_rate prov) (table_key u prov d) (R d) not_empty)"
  by (cases "kind prov") (simp_all add: mass_loss_rate_def table_key_def)

subsection \<open>The table providers' mass\_loss\_rate\<close>

text \<open>
  Claim C7. For each of the three table providers and every disc, \<open>mass_loss_rate\<close>
  returns an array without NaN, and each selected annulus for which the table answers NaN
  holds the floor rate \<open>1e-10\<close>.
\<close>

theorem mass_loss_rate_nan_floor:
  assumes "kind prov \<noteq> FixedExternalEvaporation" and "wf_disc d n" and "length not_empty = n"
  shows "\<exists>rates. mass_loss_rate u prov d not_empty = Inr rates \<and> length rates = n \<and>
           NaN \<notin> set rates \<and>
           (\<forall>i<n. not_empty ! i \<and> PE_rate prov (table_key u prov d ! i) (R d ! i) = NaN
                    \<longrightarrow> rates ! i = floor_rate)"
proof -
  let ?rates = "table_rates (PE_rate prov) (table_key u prov d) (R d) not_empty"
  have len: "length (R d) = n" "length (table_key u prov d) = n"
    using assms(2) by (simp_all add: length_table_key) (simp add: wf_disc_def)
  have "mass_loss_rate u prov d not_empty = Inr ?rates"
    using assms(1) by (rule mass_loss_rate_table)
  moreover have "length ?rates = n"
    using len by simp
  moreover have "NaN \<notin> set ?rates"
    by (rule table_rates_no_nan)
  moreover have "?rates ! i = floor_rate"
    if "i < n" and "not_empty ! i" and "PE_rate prov (table_key u prov d ! i) (R d ! i) = NaN" for i
    using that len assms(3) by (simp add: table_rates_nth lookup_rates_nth [where n = n])
  ultimately show ?thesis by blast
qed

theorem mass_loss_rate_nan_floor_witness:
  "\<exists>rates. mass_loss_rate units0 prov0 disc0 (gas_present disc0) = Inr rates \<and> length rates = 3 \<and>
     NaN \<notin> set rates \<and> rates ! 0 = floor_rate"
proof -
  have "kind prov0 \<noteq> FixedExternalEvaporation" and "wf_disc disc0 3"
    and "length (gas_present disc0) = 3"
    by (simp_all add: prov0_def disc0_def wf_disc_def gas_present_def)
  from mass_loss_rate_nan_floor [OF this, of units0]
  obtain rates where r: "mass_loss_rate units0 prov0 disc0 (gas_present disc0) = Inr rates"
      "length rates = 3" "NaN \<notin> set rates"
    and fl: "\<forall>i<3. gas_present disc0 ! i \<and>
               PE_rate prov0 (table_key units0 prov0 disc0 ! i) (R disc0 ! i) = NaN
               \<longrightarrow> rates ! i = floor_rate"
    by blast
  from fl [rule_format, of 0] have "rates ! 0 = floor_rate"
    by (simp add: prov0_def disc0_def gas_present_def table_key_def table0_def)
  with r show ?thesis by blast
qed

text \<open>
  Claim C10. For each of the three table providers, called as \<open>unweighted_rates\<close> calls
  them (with the mask \<open>Sigma_G > 0\<close>), the rate of an annulus whose \<open>Sigma_G\<close> is not
  positive is exactly 0, not the floor.
\<close>

theorem mass_loss_rate_empty_zero:
  assumes "kind prov \<noteq> FixedExternalEvaporation" and "wf_disc d n"
  shows "\<exists>rates. mass_loss_rate u prov d (gas_present d) = Inr rates \<and> length rates = n \<and>
           (\<forall>i<n. \<not> fgt (Sigma_G d ! i) (Fin 0) \<longrightarrow> rates ! i = Fin 0)"
proof -
  let ?ne = "gas_present d"
  let ?rates = "table_rates (PE_rate prov) (table_key u prov d) (R d) ?ne"
  have len: "length (R d) = n" "length (table_key u prov d) = n" "length ?ne = n"
    using assms(2) by (simp_all add: length_table_key gas_present_def) (simp_all add: wf_disc_def)
  have "mass_loss_rate u prov d ?ne = Inr ?rates"
    using assms(1) by (rule mass_loss_rate_table)
  moreover have "length ?rates = n"
    using len by simp
  moreover have "?rates ! i = Fin 0" if "i < n" and "\<not> fgt (Sigma_G d ! i) (Fin 0)" for i
  proof -
    have "\<not> ?ne ! i"
      using that len assms(2) by (simp add: gas_present_def wf_disc_def)
    then show ?thesis
      using that len by (simp add: table_rates_nth lookup_rates_nth [where n = n])
  qed
  ultimately show ?thesis by blast
qed

theorem mass_loss_rate_empty_zero_witness:
  "\<exists>rates. mass_loss_rate units0 prov0 disc0 (gas_present disc0) = Inr rates \<and> length rates = 3 \<and>
     rates ! 2 = Fin 0"
proof -
  have "kind prov0 \<noteq> FixedExternalEvaporation" and "wf_disc disc0 3"
    by (simp_all add: prov0_def disc0_def wf_disc_def)
  from mass_loss_rate_empty_zero [OF this, of units0]
  obtain rates where r: "mass_loss_rate units0 prov0 disc0 (gas_present disc0) = Inr rates"
      "length rates = 3"
    and z: "\<forall>i<3. \<not> fgt (Sigma_G disc0 ! i) (Fin 0) \<longrightarrow> rates ! i = Fin 0"
    by blast
  from z [rule_format, of 2] have "rates ! 2 = Fin 0"
    by (simp add: disc0_def)
  with r show ?thesis by blast
qed

subsection \<open>The Facchini limit\<close>

lemma Facchini_limit_nth:
  assumes "length (H d) = n" "length (R d) = n" "length (cs d) = n" "length rate = n" "i < n"
  shows "Facchini_limit u d ds rate ! i =
           fmul (fdiv (fmul (fmul (Fin (sqrt (8 / pi))) (cs d ! i)) (rate ! i))
                   (fmul (fmul (fmul (fmul (star_M d) (Fin 4)) (Fin pi))
                      (fdiv (H d ! i) (fsqrt (fadd (fmul (H d ! i) (H d ! i)) (fmul (R d ! i) (R d ! i))))))
                      (rho_s ds)))
             (Fin (Msun u / (AU u) ^ 2 / yr u))"
  using assms by (simp add: Facchini_limit_def Let_def)

lemma Facchini_limit_Fin:
  assumes "length (H d) = n" "length (R d) = n" "length (cs d) = n" "length rate = n" "i < n"
    and "H d ! i = Fin h" "0 < h" "R d ! i = Fin r" "0 < r" "cs d ! i = Fin c"
    and "star_M d = Fin ms" "0 < ms" "rho_s ds = Fin rho" "0 < rho"
    and "rate ! i = Fin m"
  shows "Facchini_limit u d ds rate ! i =
           Fin (sqrt (8 / pi) * c * m / (ms * 4 * pi * (h / sqrt (h * h + r * r)) * rho)
                 * (Msun u / (AU u) ^ 2 / yr u))"
proof -
  have "0 < h * h + r * r"
    using assms(7,9) by (simp add: add_pos_pos)
  then have "0 < sqrt (h * h + r * r)"
    by simp
  then show ?thesis
    using assms by (simp add: Facchini_limit_nth [where n = n])
qed

text \<open>
  Claim C8. At an annulus with positive scale height, radius and sound speed, for a
  positive stellar mass and grain density (and positive unit constants), the size
  returned by \<open>Facchini_limit\<close> grows strictly with \<open>Mdot\<close> and, for \<open>Mdot > 0\<close>, falls
  strictly when the stellar mass or the grain density grows, all else fixed.
\<close>

theorem Facchini_limit_monotone:
  assumes "wf_disc d n" and "i < n" and "length rate = n" and "length rate' = n"
    and "H d ! i = Fin h" and "0 < h" and "R d ! i = Fin r" and "0 < r"
    and "cs d ! i = Fin c" and "0 < c"
    and "star_M d = Fin ms" and "0 < ms" and "rho_s ds = Fin rho" and "0 < rho"
    and "0 < AU u" and "0 < Msun u" and "0 < yr u"
    and "rate ! i = Fin m"
  shows "(\<forall>m'. rate' ! i = Fin m' \<and> m < m' \<longrightarrow>
            flt (Facchini_limit u d ds rate ! i) (Facchini_limit u d ds rate' ! i)) \<and>
         (0 < m \<longrightarrow>
            (\<forall>ms'. ms < ms' \<longrightarrow>
               flt (Facchini_limit u (d\<lparr>star_M := Fin ms'\<rparr>) ds rate ! i)
                   (Facchini_limit u d ds rate ! i)) \<and>
            (\<forall>rho'. rho < rho' \<longrightarrow>
               flt (Facchini_limit u d (ds\<lparr>rho_s := Fin rho'\<rparr>) rate ! i)
                   (Facchini_limit u d ds rate ! i)))"
proof -
  define A where "A = sqrt (8 / pi) * c"
  define G where "G = 4 * pi * (h / sqrt (h * h + r * r))"
  define K where "K = Msun u / (AU u) ^ 2 / yr u"
  have len: "length (H d) = n" "length (R d) = n" "length (cs d) = n"
    using assms(1) by (simp_all add: wf_disc_def)
  have Apos: "0 < A"
    using assms(10) by (simp add: A_def)
  have "0 < sqrt (h * h + r * r)"
    using assms(6,8) by (simp add: add_pos_pos)
  then have Gpos: "0 < G"
    using assms(6) by (simp add: G_def)
  have Kpos: "0 < K"
    using assms(15,16,17) by (simp add: K_def)
  have val: "Facchini_limit u d' ds' rt ! i = Fin (A * x / (s * G * q) * K)"
    if "length rt = n" "rt ! i = Fin x" "star_M d' = Fin s" "0 < s" "rho_s ds' = Fin q" "0 < q"
      "H d' = H d" "R d' = R d" "cs d' = cs d" for d' ds' rt x s q
    using Facchini_limit_Fin [of d' n rt i h r c s ds' q x u] that len assms(2,5-9)
    by (simp add: A_def G_def K_def mult_ac)
  have mono_m: "A * m / (ms * G * rho) * K < A * m' / (ms * G * rho) * K" if "m < m'" for m'
  proof -
    have "0 < ms * G * rho"
      using assms(12,14) Gpos by simp
    moreover have "A * m < A * m'"
      using that Apos by simp
    ultimately have "A * m / (ms * G * rho) < A * m' / (ms * G * rho)"
      by (simp add: divide_strict_right_mono)
    then show ?thesis
      using Kpos by (rule mult_strict_right_mono)
  qed
  have anti: "A * m / (s' * G * q') * K < A * m / (s * G * q) * K"
    if "0 < m" "0 < s" "0 < q" "s * q < s' * q'" for s s' q q'
  proof -
    have "0 < s * G * q"
      using that Gpos by simp
    moreover have "s * G * q < s' * G * q'"
      using that(4) Gpos by (simp add: mult.commute mult.left_commute)
    moreover have "0 < A * m"
      using that(1) Apos by simp
    ultimately have "A * m / (s' * G * q') < A * m / (s * G * q)"
      by (simp add: divide_strict_left_mono)
    then show ?thesis
      using Kpos by (rule mult_strict_right_mono)
  qed
  have base: "Facchini_limit u d ds rate ! i = Fin (A * m / (ms * G * rho) * K)"
    using val [of rate m d ms ds rho] assms by simp
  have 1: "flt (Facchini_limit u d ds rate ! i) (Facchini_limit u d ds rate' ! i)"
    if "rate' ! i = Fin m'" "m < m'" for m'
    using val [of rate' m' d ms ds rho] that assms mono_m [of m'] base
    by (simp add: flt_def)
  have 2: "flt (Facchini_limit u (d\<lparr>star_M := Fin ms'\<rparr>) ds rate ! i) (Facchini_limit u d ds rate ! i)"
    if "0 < m" "ms < ms'" for ms'
  proof -
    have "ms * rho < ms' * rho"
      using that assms(14) by simp
    moreover have "0 < ms'"
      using that assms(12) by simp
    ultimately show ?thesis
      using val [of rate m "d\<lparr>star_M := Fin ms'\<rparr>" ms' ds rho] that assms base
        anti [of ms rho ms' rho]
      by (simp add: flt_def)
  qed
  have 3: "flt (Facchini_limit u d (ds\<lparr>rho_s := Fin rho'\<rparr>) rate ! i) (Facchini_limit u d ds rate ! i)"
    if "0 < m" "rho < rho'" for rho'
  proof -
    have "ms * rho < ms * rho'"
      using that assms(12) by simp
    moreover have "0 < rho'"
      using that assms(14) by simp
    ultimately show ?thesis
      using val [of rate m d ms "ds\<lparr>rho_s := Fin rho'\<rparr>" rho'] that assms base
        anti [of ms rho ms rho']
      by (simp add: flt_def)
  qed
  from 1 2 3 show ?thesis by blast
qed

lemma units0_pos: "0 < AU units0" "0 < Msun units0" "0 < yr units0" "0 < Mjup units0"
  by (simp_all add: units0_def)

theorem Facchini_limit_monotone_witness:
  "flt (Facchini_limit units0 disc1 dust1 [Fin 1, Fin 1, Fin 1] ! 0)
       (Facchini_limit units0 disc1 dust1 [Fin 2, Fin 2, Fin 2] ! 0) \<and>
   flt (Facchini_limit units0 (disc1\<lparr>star_M := Fin 2\<rparr>) dust1 [Fin 1, Fin 1, Fin 1] ! 0)
       (Facchini_limit units0 disc1 dust1 [Fin 1, Fin 1, Fin 1] ! 0) \<and>
   flt (Facchini_limit units0 disc1 (dust1\<lparr>rho_s := Fin 3\<rparr>) [Fin 1, Fin 1, Fin 1] ! 0)
       (Facchini_limit units0 disc1 dust1 [Fin 1, Fin 1, Fin 1] ! 0)"
proof -
  have m: "(\<forall>m'. [Fin 2, Fin 2, Fin 2] ! 0 = Fin m' \<and> 1 < m' \<longrightarrow>
            flt (Facchini_limit units0 disc1 dust1 [Fin 1, Fin 1, Fin 1] ! 0)
                (Facchini_limit units0 disc1 dust1 [Fin 2, Fin 2, Fin 2] ! 0)) \<and>
         ((0::real) < 1 \<longrightarrow>
            (\<forall>ms'. 1 < ms' \<longrightarrow>
               flt (Facchini_limit units0 (disc1\<lparr>star_M := Fin ms'\<rparr>) dust1 [Fin 1, Fin 1, Fin 1] ! 0)
                   (Facchini_limit units0 disc1 dust1 [Fin 1, Fin 1, Fin 1] ! 0)) \<and>
            (\<forall>rho'. 1 < rho' \<longrightarrow>
               flt (Facchini_limit units0 disc1 (dust1\<lparr>rho_s := Fin rho'\<rparr>) [Fin 1, Fin 1, Fin 1] ! 0)
                   (Facchini_limit units0 disc1 dust1 [Fin 1, Fin 1, Fin 1] ! 0)))"
    by (rule Facchini_limit_monotone [where n = 3 and h = "1/10" and r = 1 and c = 1])
       (simp_all add: disc1_def dust1_def wf_disc_def units0_pos)
  from m have "flt (Facchini_limit units0 disc1 dust1 [Fin 1, Fin 1, Fin 1] ! 0)
                (Facchini_limit units0 disc1 dust1 [Fin 2, Fin 2, Fin 2] ! 0)"
    by simp
  moreover from m have "flt (Facchini_limit units0 (disc1\<lparr>star_M := Fin 2\<rparr>) dust1 [Fin 1, Fin 1, Fin 1] ! 0)
                   (Facchini_limit units0 disc1 dust1 [Fin 1, Fin 1, Fin 1] ! 0)"
    by simp
  moreover from m have "flt (Facchini_limit units0 disc1 (dust1\<lparr>rho_s := Fin 3\<rparr>) [Fin 1, Fin 1, Fin 1] ! 0)
                   (Facchini_limit units0 disc1 dust1 [Fin 1, Fin 1, Fin 1] ! 0)"
    by simp
  ultimately show ?thesis by blast
qed

subsection \<open>dust\_entrainment\<close>

lemma length_map2_fadd_foldl:
  "\<forall>row\<in>set rs. length row = length r \<Longrightarrow>
   length (foldl (\<lambda>acc row. map2 fadd acc row) r rs) = length r"
  by (induction rs arbitrary: r) auto

lemma length_sum0:
  "rows \<noteq> [] \<Longrightarrow> \<forall>row\<in>set rows. length row = n \<Longrightarrow> length (sum0 rows) = n"
  by (cases rows) (auto simp: sum0_def length_map2_fadd_foldl)

lemma length_M_dust_sum:
  assumes "Sigma_D ds \<noteq> []" "\<forall>row\<in>set (Sigma_D ds). length row = n" "length (R_edge d) = Suc n"
  shows "length (M_dust_sum u d ds) = n"
  using assms by (simp add: M_dust_sum_def Let_def length_sum0)

text \<open>The entrained fraction of line 162, annulus by annulus.\<close>

lemma f_ent_compress:
  "f_ent prov d ds =
     compress (gas_present d)
       (map2 (\<lambda>a g. fmin (Fin 1) (fpowr (fdiv a g) (4 - dust_p ds)))
          (self_amax prov) (grain_size ds ! 1))"
proof -
  have "map2 (\<lambda>one q. fmin one (fpowr q (4 - dust_p ds)))
          (compress (gas_present d) (map (\<lambda>_. Fin 1) (grain_size ds ! 1)))
          (map2 fdiv (compress (gas_present d) (self_amax prov))
             (compress (gas_present d) (grain_size ds ! 1)))
        = compress (gas_present d)
            (map2 (\<lambda>one q. fmin one (fpowr q (4 - dust_p ds)))
               (map (\<lambda>_. Fin 1) (grain_size ds ! 1))
               (map2 fdiv (self_amax prov) (grain_size ds ! 1)))"
    by (simp add: compress_zip compress_map)
  also have "map2 (\<lambda>one q. fmin one (fpowr q (4 - dust_p ds)))
               (map (\<lambda>_. Fin 1) (grain_size ds ! 1))
               (map2 fdiv (self_amax prov) (grain_size ds ! 1))
             = map2 (\<lambda>a g. fmin (Fin 1) (fpowr (fdiv a g) (4 - dust_p ds)))
                 (self_amax prov) (grain_size ds ! 1)"
    by (rule nth_equalityI) auto
  finally show ?thesis
    by (simp add: f_ent_def Let_def)
qed

lemma fmin_one_le: "fmin (Fin 1) x = NaN \<or> fle (fmin (Fin 1) x) (Fin 1)"
  by (cases x) (auto simp: fmin_def fle_def fge_def)

text \<open>
  Claim C9, as the code has it. \<open>dust_entrainment\<close> returns one array, the entrained mass:
  for an annulus with \<open>Sigma_G > 0\<close> it is the annulus's dust mass times
  \<open>min(1, (a_ent/a_max)^(4-p))\<close>, for any other annulus exactly 0. The factor is at most 1
  (or NaN) and does not depend on the dust mass.
\<close>

theorem dust_entrainment_mass:
  assumes "wf_disc d n" and "Sigma_D ds \<noteq> []" and "\<forall>row\<in>set (Sigma_D ds). length row = n"
    and "length (self_amax prov) = n" and "length (grain_size ds ! 1) = n" and "i < n"
  shows "dust_entrainment u prov d ds ! i =
           (if fgt (Sigma_G d ! i) (Fin 0)
            then fmul (M_dust_sum u d ds ! i)
                   (fmin (Fin 1)
                      (fpowr (fdiv (self_amax prov ! i) (grain_size ds ! 1 ! i)) (4 - dust_p ds)))
            else Fin 0) \<and>
         (fmin (Fin 1) (fpowr (fdiv (self_amax prov ! i) (grain_size ds ! 1 ! i)) (4 - dust_p ds)) = NaN \<or>
          fle (fmin (Fin 1) (fpowr (fdiv (self_amax prov ! i) (grain_size ds ! 1 ! i)) (4 - dust_p ds)))
            (Fin 1))"
proof -
  let ?ne = "gas_present d"
  let ?frac = "map2 (\<lambda>a g. fmin (Fin 1) (fpowr (fdiv a g) (4 - dust_p ds)))
                 (self_amax prov) (grain_size ds ! 1)"
  have len: "length (Sigma' d) = n" "length (Sigma_G d) = n" "length (R_edge d) = Suc n"
    using assms(1) by (simp_all add: wf_disc_def)
  have lm: "length (M_dust_sum u d ds) = n"
    using assms(2,3) len(3) by (rule length_M_dust_sum)
  have "map2 fmul (compress ?ne (M_dust_sum u d ds)) (f_ent prov d ds)
          = compress ?ne (map2 fmul (M_dust_sum u d ds) ?frac)"
    by (simp add: f_ent_compress compress_zip compress_map)
  then have "dust_entrainment u prov d ds
               = scatter ?ne (map (\<lambda>_. Fin 0) (Sigma' d))
                   (compress ?ne (map2 fmul (M_dust_sum u d ds) ?frac))"
    by (simp add: dust_entrainment_def Let_def)
  then have "dust_entrainment u prov d ds ! i
               = (if ?ne ! i then map2 fmul (M_dust_sum u d ds) ?frac ! i else Fin 0)"
    using len lm assms(4,5,6) by (simp add: scatter_compress_nth gas_present_def)
  then show ?thesis
    using len lm assms(4,5,6) fmin_one_le by (simp add: gas_present_def)
qed

theorem dust_entrainment_mass_witness:
  "dust_entrainment units0 prov1 disc1 dust1 ! 0 = M_dust_sum units0 disc1 dust1 ! 0"
proof -
  have a: "wf_disc disc1 3" "Sigma_D dust1 \<noteq> []" "\<forall>row\<in>set (Sigma_D dust1). length row = 3"
    "length (self_amax prov1) = 3" "length (grain_size dust1 ! 1) = 3" "(0::nat) < 3"
    by (simp_all add: disc1_def dust1_def prov1_def wf_disc_def)
  have "M_dust_sum units0 disc1 dust1 ! 0 \<noteq> NaN \<and> M_dust_sum units0 disc1 dust1 ! 0 \<noteq> PInf
        \<and> M_dust_sum units0 disc1 dust1 ! 0 \<noteq> NInf"
    by (simp add: M_dust_sum_def annulus_areas_def disc1_def dust1_def sum0_def fsub_def)
  then obtain x where x: "M_dust_sum units0 disc1 dust1 ! 0 = Fin x"
    by (cases "M_dust_sum units0 disc1 dust1 ! 0") auto
  from dust_entrainment_mass [OF a, of units0] show ?thesis
    by (simp add: disc1_def dust1_def prov1_def fpowr_def fmin_def x [unfolded disc1_def dust1_def])
qed

text \<open>The fraction of an annulus that holds gas and no dust is not 0: here it is 1.\<close>

theorem dust_free_annulus_fraction:
  "gas_present disc1 = [True, True, True] \<and>
   M_dust_sum units0 disc1 dust1 ! 1 = Fin 0 \<and>
   f_ent prov1 disc1 dust1 ! 1 = Fin 1 \<and>
   f_ent prov1 disc1 dust1 ! 1 \<noteq> Fin 0"
  by (simp add: gas_present_def f_ent_def M_dust_sum_def annulus_areas_def sum0_def
      disc1_def dust1_def prov1_def fpowr_def fmin_def fsub_def)

subsection \<open>The order of the floats\<close>

lemma fle_refl: "x \<noteq> NaN \<Longrightarrow> fle x x"
  by (simp add: fle_def fge_def)

lemma not_fle: "x \<noteq> NaN \<Longrightarrow> y \<noteq> NaN \<Longrightarrow> (\<not> fle x y) = flt y x"
  by (cases x; cases y) (auto simp: fle_def fge_def flt_def)

lemma fle_trans: "fle x y \<Longrightarrow> fle y z \<Longrightarrow> fle x z"
  by (cases x; cases y; cases z) (auto simp: fle_def fge_def)

lemma flt_fle_trans: "flt x y \<Longrightarrow> fle y z \<Longrightarrow> flt x z"
  by (cases x; cases y; cases z) (auto simp: fle_def fge_def flt_def)

lemma flt_imp_fle: "flt x y \<Longrightarrow> fle x y"
  by (simp add: fle_def fge_def flt_def)

lemma flt_not_nan: "flt x y \<Longrightarrow> x \<noteq> NaN \<and> y \<noteq> NaN"
  by (cases x; cases y) (auto simp: flt_def)

subsection \<open>argmax\<close>

lemma argmax_from_spec:
  assumes "mp \<noteq> NaN" and "NaN \<notin> set xs"
  shows "(argmax_from best mp i xs = best \<and> (\<forall>x\<in>set xs. fle x mp)) \<or>
         (\<exists>j<length xs. argmax_from best mp i xs = i + j \<and> flt mp (xs ! j) \<and>
            (\<forall>l<length xs. fle (xs ! l) (xs ! j)) \<and> (\<forall>l<j. flt (xs ! l) (xs ! j)))"
  using assms
proof (induction xs arbitrary: best mp i)
  case Nil
  then show ?case by simp
next
  case (Cons x xs)
  have xn: "x \<noteq> NaN" and xsn: "NaN \<notin> set xs"
    using Cons.prems(2) by auto
  show ?case
  proof (cases "fle x mp")
    case True
    from Cons.IH [OF Cons.prems(1) xsn, of best "Suc i"]
    show ?thesis
    proof
      assume "argmax_from best mp (Suc i) xs = best \<and> (\<forall>x\<in>set xs. fle x mp)"
      then show ?thesis
        using True Cons.prems(1) by simp
    next
      assume "\<exists>j<length xs. argmax_from best mp (Suc i) xs = Suc i + j \<and> flt mp (xs ! j) \<and>
                (\<forall>l<length xs. fle (xs ! l) (xs ! j)) \<and> (\<forall>l<j. flt (xs ! l) (xs ! j))"
      then obtain j where j: "j < length xs" "argmax_from best mp (Suc i) xs = Suc i + j"
          "flt mp (xs ! j)" "\<forall>l<length xs. fle (xs ! l) (xs ! j)" "\<forall>l<j. flt (xs ! l) (xs ! j)"
        by blast
      have lt: "flt x (xs ! j)"
        using True j(3) xn Cons.prems(1)
        by (cases x; cases mp; cases "xs ! j") (auto simp: fle_def fge_def flt_def)
      have "\<forall>l<length (x # xs). fle ((x # xs) ! l) ((x # xs) ! Suc j)"
        using j(4) lt by (auto simp: nth_Cons' flt_imp_fle)
      moreover have "\<forall>l<Suc j. flt ((x # xs) ! l) ((x # xs) ! Suc j)"
        using j(5) lt by (auto simp: nth_Cons' less_Suc_eq_0_disj)
      ultimately have "Suc j < length (x # xs) \<and>
          argmax_from best mp i (x # xs) = i + Suc j \<and> flt mp ((x # xs) ! Suc j) \<and>
          (\<forall>l<length (x # xs). fle ((x # xs) ! l) ((x # xs) ! Suc j)) \<and>
          (\<forall>l<Suc j. flt ((x # xs) ! l) ((x # xs) ! Suc j))"
        using j(1,2,3) True Cons.prems(1) by simp
      then show ?thesis by blast
    qed
  next
    case False
    then have gt: "flt mp x"
      using not_fle xn Cons.prems(1) by blast
    from Cons.IH [OF xn xsn, of i "Suc i"]
    show ?thesis
    proof
      assume a: "argmax_from i x (Suc i) xs = i \<and> (\<forall>y\<in>set xs. fle y x)"
      have "\<forall>l<length (x # xs). fle ((x # xs) ! l) ((x # xs) ! 0)"
        using a xn by (auto simp: nth_Cons' fle_refl)
      then have "0 < length (x # xs) \<and> argmax_from best mp i (x # xs) = i + 0 \<and>
          flt mp ((x # xs) ! 0) \<and>
          (\<forall>l<length (x # xs). fle ((x # xs) ! l) ((x # xs) ! 0)) \<and>
          (\<forall>l<0. flt ((x # xs) ! l) ((x # xs) ! 0))"
        using a gt False Cons.prems(1) by simp
      then show ?thesis by blast
    next
      assume "\<exists>j<length xs. argmax_from i x (Suc i) xs = Suc i + j \<and> flt x (xs ! j) \<and>
                (\<forall>l<length xs. fle (xs ! l) (xs ! j)) \<and> (\<forall>l<j. flt (xs ! l) (xs ! j))"
      then obtain j where j: "j < length xs" "argmax_from i x (Suc i) xs = Suc i + j"
          "flt x (xs ! j)" "\<forall>l<length xs. fle (xs ! l) (xs ! j)" "\<forall>l<j. flt (xs ! l) (xs ! j)"
        by blast
      have "flt mp (xs ! j)"
        using gt j(3) flt_fle_trans flt_imp_fle by blast
      moreover have "\<forall>l<length (x # xs). fle ((x # xs) ! l) ((x # xs) ! Suc j)"
        using j(4) j(3) by (auto simp: nth_Cons' flt_imp_fle)
      moreover have "\<forall>l<Suc j. flt ((x # xs) ! l) ((x # xs) ! Suc j)"
        using j(5) j(3) by (auto simp: nth_Cons' less_Suc_eq_0_disj)
      ultimately have "Suc j < length (x # xs) \<and>
          argmax_from best mp i (x # xs) = i + Suc j \<and> flt mp ((x # xs) ! Suc j) \<and>
          (\<forall>l<length (x # xs). fle ((x # xs) ! l) ((x # xs) ! Suc j)) \<and>
          (\<forall>l<Suc j. flt ((x # xs) ! l) ((x # xs) ! Suc j))"
        using j(1,2) False Cons.prems(1) by simp
      then show ?thesis by blast
    qed
  qed
qed

lemma argmax_first_maximum:
  assumes "xs \<noteq> []" and "NaN \<notin> set xs"
  shows "\<exists>k<length xs. argmax xs = Inr k \<and> (\<forall>l<length xs. fle (xs ! l) (xs ! k)) \<and>
           (\<forall>l<k. flt (xs ! l) (xs ! k))"
proof -
  obtain x rest where xs: "xs = x # rest"
    using assms(1) by (cases xs) auto
  have xn: "x \<noteq> NaN" and rn: "NaN \<notin> set rest"
    using assms(2) xs by auto
  from argmax_from_spec [OF xn rn, of 0 1]
  show ?thesis
  proof
    assume a: "argmax_from 0 x 1 rest = 0 \<and> (\<forall>y\<in>set rest. fle y x)"
    have "\<forall>l<length xs. fle (xs ! l) (xs ! 0)"
      using a xn xs by (auto simp: nth_Cons' fle_refl)
    then have "0 < length xs \<and> argmax xs = Inr 0 \<and> (\<forall>l<length xs. fle (xs ! l) (xs ! 0)) \<and>
        (\<forall>l<0. flt (xs ! l) (xs ! 0))"
      using a xs by (simp add: argmax_def)
    then show ?thesis by blast
  next
    assume "\<exists>j<length rest. argmax_from 0 x 1 rest = 1 + j \<and> flt x (rest ! j) \<and>
              (\<forall>l<length rest. fle (rest ! l) (rest ! j)) \<and> (\<forall>l<j. flt (rest ! l) (rest ! j))"
    then obtain j where j: "j < length rest" "argmax_from 0 x 1 rest = 1 + j"
        "flt x (rest ! j)" "\<forall>l<length rest. fle (rest ! l) (rest ! j)"
        "\<forall>l<j. flt (rest ! l) (rest ! j)"
      by blast
    have "\<forall>l<length xs. fle (xs ! l) (xs ! Suc j)"
      using j(3,4) xs by (auto simp: nth_Cons' flt_imp_fle)
    moreover have "\<forall>l<Suc j. flt (xs ! l) (xs ! Suc j)"
      using j(3,5) xs by (auto simp: nth_Cons' less_Suc_eq_0_disj)
    ultimately have "Suc j < length xs \<and> argmax xs = Inr (Suc j) \<and>
        (\<forall>l<length xs. fle (xs ! l) (xs ! Suc j)) \<and> (\<forall>l<Suc j. flt (xs ! l) (xs ! Suc j))"
      using j(1,2) xs by (simp add: argmax_def)
    then show ?thesis by blast
  qed
qed

lemma transition_index_last_maximum:
  assumes "rates \<noteq> []" and "NaN \<notin> set rates"
  shows "\<exists>i<length rates. transition_index rates = Inr i \<and>
           (\<forall>j<length rates. fle (rates ! j) (rates ! i)) \<and>
           (\<forall>j<length rates. i < j \<longrightarrow> flt (rates ! j) (rates ! i))"
proof -
  let ?n = "length rates"
  have "rev rates \<noteq> []" "NaN \<notin> set (rev rates)"
    using assms by simp_all
  from argmax_first_maximum [OF this]
  obtain k where k: "k < ?n" "argmax (rev rates) = Inr k"
      "\<forall>l<?n. fle (rev rates ! l) (rev rates ! k)" "\<forall>l<k. flt (rev rates ! l) (rev rates ! k)"
    by auto
  let ?i = "?n - k - 1"
  have ik: "?i < ?n" "rev rates ! k = rates ! ?i"
    using k(1) by (simp_all add: rev_nth)
  have 1: "fle (rates ! j) (rates ! ?i)" if "j < ?n" for j
  proof -
    have "?n - Suc j < ?n" "rev rates ! (?n - Suc j) = rates ! j"
      using that by (simp_all add: rev_nth)
    then show ?thesis
      using k(3) ik(2) by metis
  qed
  have 2: "flt (rates ! j) (rates ! ?i)" if "j < ?n" "?i < j" for j
  proof -
    have "?n - Suc j < k" "rev rates ! (?n - Suc j) = rates ! j"
      using that k(1) by (simp_all add: rev_nth)
    then show ?thesis
      using k(4) ik(2) by metis
  qed
  have "transition_index rates = Inr ?i"
    using k(2) by (simp add: transition_index_def bind_res_simps)
  with ik(1) 1 2 show ?thesis by blast
qed

subsection \<open>The transition index\<close>

lemma fcmp_Fin [simp]:
  "fge (Fin a) (Fin b) = (b \<le> a)"
  "fle (Fin a) (Fin b) = (a \<le> b)"
  "flt (Fin a) (Fin b) = (a < b)"
  by (auto simp: fge_def fle_def flt_def)

lemma unweighted_rates_table:
  "kind prov \<noteq> FixedExternalEvaporation \<Longrightarrow>
   unweighted_rates u prov d False =
     Inr ((map (\<lambda>m. fdiv (fmul m (Fin (Msun u))) (Fin (2 * pi)))
             (table_rates (PE_rate prov) (table_key u prov d) (R d) (gas_present d)),
           map2 fmul (Sigma_G d) (annulus_areas u d)), prov)"
  by (simp add: unweighted_rates_def Let_def mass_loss_rate_table bind_res_simps)

text \<open>The raw rates of a table provider hold no NaN.\<close>

lemma raw_rates_no_nan:
  assumes "kind prov \<noteq> FixedExternalEvaporation" and "Msun u \<noteq> 0"
    and "unweighted_rates u prov d False = Inr ((rates, dM_gas), prov')"
  shows "NaN \<notin> set rates"
proof -
  let ?t = "table_rates (PE_rate prov) (table_key u prov d) (R d) (gas_present d)"
  have conv: "fdiv (fmul m (Fin (Msun u))) (Fin (2 * pi)) \<noteq> NaN" if "m \<noteq> NaN" for m
    using that assms(2) by (cases m) (auto simp: inf_sign_def)
  have "(Inr ((rates, dM_gas), prov') :: error + ((fl list \<times> fl list) \<times> provider))
          = Inr ((map (\<lambda>m. fdiv (fmul m (Fin (Msun u))) (Fin (2 * pi))) ?t,
                  map2 fmul (Sigma_G d) (annulus_areas u d)), prov)"
    using unweighted_rates_table [OF assms(1), of u d] assms(3) by (simp only:)
  then have r: "rates = map (\<lambda>m. fdiv (fmul m (Fin (Msun u))) (Fin (2 * pi))) ?t"
    by (simp only: sum.inject prod.inject)
  have t: "NaN \<notin> set ?t"
    by (rule table_rates_no_nan)
  show ?thesis
  proof
    assume "NaN \<in> set rates"
    then have "NaN \<in> (\<lambda>m. fdiv (fmul m (Fin (Msun u))) (Fin (2 * pi))) ` set ?t"
      unfolding r by (simp only: set_map)
    then obtain m where m: "m \<in> set ?t" "NaN = fdiv (fmul m (Fin (Msun u))) (Fin (2 * pi))"
      by (rule imageE)
    have "m \<noteq> NaN"
    proof
      assume "m = NaN"
      with m(1) t show False by (simp only:)
    qed
    from conv [OF this] m(2) [symmetric] show False
      by (rule notE)
  qed
qed

text \<open>
  Claim C5, as the code has it. Where the raw rates hold no NaN, the transition index is
  the index of the greatest raw rate, the outermost one where several annuli share it: no
  rate is greater, and every rate further out is strictly smaller.
\<close>

theorem i_max_outermost_maximum:
  assumes "unweighted_rates u prov d False = Inr ((rates, dM_gas), prov')"
    and "rates \<noteq> []" and "NaN \<notin> set rates"
  shows "\<exists>i<length rates. i_max_of u prov d = Inr i \<and>
           (\<forall>j<length rates. fle (rates ! j) (rates ! i)) \<and>
           (\<forall>j<length rates. i < j \<longrightarrow> flt (rates ! j) (rates ! i))"
proof -
  have "i_max_of u prov d = transition_index rates"
    using assms(1) by (simp add: i_max_of_def bind_res_simps)
  then show ?thesis
    using transition_index_last_maximum [OF assms(2,3)] by simp
qed

lemma raw_rates_disc2:
  obtains K where "0 < K" and
    "unweighted_rates units0 prov2 disc2 False =
       Inr (([Fin (5 * K), Fin K, Fin (3 * K), Fin (2 * K)],
             map2 fmul (Sigma_G disc2) (annulus_areas units0 disc2)), prov2)"
proof -
  have k: "kind prov2 \<noteq> FixedExternalEvaporation"
    by (simp add: prov2_def)
  have "table_rates (PE_rate prov2) (table_key units0 prov2 disc2) (R disc2) (gas_present disc2)
          = [Fin 5, Fin 1, Fin 3, Fin 2]"
    by (simp add: table_rates_def lookup_rates_def table_key_def gas_present_def Let_def
        prov2_def disc2_def)
  then have "unweighted_rates units0 prov2 disc2 False =
       Inr (([Fin (5 * (Msun units0 / (2 * pi))), Fin (Msun units0 / (2 * pi)),
              Fin (3 * (Msun units0 / (2 * pi))), Fin (2 * (Msun units0 / (2 * pi)))],
             map2 fmul (Sigma_G disc2) (annulus_areas units0 disc2)), prov2)"
    by (simp add: unweighted_rates_table [OF k])
  moreover have "0 < Msun units0 / (2 * pi)"
    by (simp add: units0_def)
  ultimately show ?thesis
    using that by blast
qed

theorem i_max_outermost_maximum_witness:
  "i_max_of units0 prov2 disc2 = Inr 0"
proof -
  obtain K where K: "0 < K" and
    r: "unweighted_rates units0 prov2 disc2 False =
       Inr (([Fin (5 * K), Fin K, Fin (3 * K), Fin (2 * K)],
             map2 fmul (Sigma_G disc2) (annulus_areas units0 disc2)), prov2)"
    by (rule raw_rates_disc2)
  let ?rates = "[Fin (5 * K), Fin K, Fin (3 * K), Fin (2 * K)]"
  have "?rates \<noteq> []" and "NaN \<notin> set ?rates"
    by simp_all
  from i_max_outermost_maximum [OF r this]
  obtain i where i: "i < 4" "i_max_of units0 prov2 disc2 = Inr i"
      "\<forall>j<4. fle (?rates ! j) (?rates ! i)"
    by auto
  from i(3) [rule_format, of 0] have "fle (?rates ! 0) (?rates ! i)"
    by simp
  moreover have "i = 0 \<or> i = 1 \<or> i = 2 \<or> i = 3"
    using i(1) by auto
  ultimately have "i = 0"
    using K by auto
  with i(2) show ?thesis by simp
qed

text \<open>On the disc with a ring the greatest rate is at the innermost annulus, while the
  first local maximum met from outside is the ring, annulus 2.\<close>

theorem first_local_max_differs:
  "i_max_of units0 prov2 disc2 = Inr 0 \<and> first_local_max_of units0 prov2 disc2 = Inr 2"
proof -
  obtain K where K: "0 < K" and
    r: "unweighted_rates units0 prov2 disc2 False =
       Inr (([Fin (5 * K), Fin K, Fin (3 * K), Fin (2 * K)],
             map2 fmul (Sigma_G disc2) (annulus_areas units0 disc2)), prov2)"
    by (rule raw_rates_disc2)
  have "i_max_of units0 prov2 disc2 = Inr 0"
    using K by (simp add: i_max_of_def r bind_res_simps transition_index_def argmax_def)
  moreover have "first_local_max_of units0 prov2 disc2 = Inr 2"
    using K by (simp add: first_local_max_of_def r bind_res_simps
        first_local_max_from_outside_def)
  ultimately show ?thesis by simp
qed

subsection \<open>Sums and masks on finite arrays\<close>

lemma foldl_fadd_Fin: "foldl fadd (Fin a) (map Fin xs) = Fin (a + sum_list xs)"
  by (induction xs arbitrary: a) (auto simp: add.assoc)

lemma fsum_map_Fin: "fsum (map Fin xs) = Fin (sum_list xs)"
  by (simp add: fsum_def foldl_fadd_Fin)

lemma compress_replicate_False: "compress (replicate i False @ ms) xs = compress ms (drop i xs)"
proof (induction i arbitrary: xs)
  case 0
  then show ?case by simp
next
  case (Suc i)
  then show ?case by (cases xs) auto
qed

lemma compress_replicate_True: "compress (replicate k True) xs = take k xs"
proof (induction k arbitrary: xs)
  case 0
  then show ?case by simp
next
  case (Suc k)
  then show ?case by (cases xs) auto
qed

lemma compress_from_index:
  assumes "length ms = length xs" and "\<forall>j<length ms. ms ! j = (i \<le> j)"
  shows "compress ms xs = drop i xs"
proof -
  have "ms = replicate i False @ replicate (length ms - i) True" if "i \<le> length ms"
    using assms(2) that by (intro nth_equalityI) (auto simp: nth_append)
  moreover have "ms = replicate (length ms) False" if "length ms < i"
    using assms(2) that by (intro nth_equalityI) auto
  ultimately show ?thesis
  proof (cases "i \<le> length ms")
    case True
    then have "compress ms xs = take (length ms - i) (drop i xs)"
      using \<open>i \<le> length ms \<Longrightarrow> ms = replicate i False @ replicate (length ms - i) True\<close>
        compress_replicate_False [of i "replicate (length ms - i) True" xs]
      by (simp add: compress_replicate_True)
    then show ?thesis
      using assms(1) by simp
  next
    case False
    then have "ms = replicate (length ms) False @ []"
      using \<open>length ms < i \<Longrightarrow> ms = replicate (length ms) False\<close> by simp
    then have "compress ms xs = compress [] (drop (length ms) xs)"
      using compress_replicate_False [of "length ms" "[]" xs] by simp
    then show ?thesis
      using assms(1) False by simp
  qed
qed

lemma sum_list_divide: "sum_list (map (\<lambda>x. x / t) xs) = sum_list xs / (t::real)"
  by (induction xs) (auto simp: add_divide_distrib)

lemma sum_list_pos_nth:
  assumes "\<forall>x\<in>set xs. (0::real) \<le> x" and "k < length xs" and "0 < xs ! k"
  shows "0 < sum_list xs"
proof -
  have "xs ! k \<le> sum_list xs"
    using assms(1,2) by (intro member_le_sum_list) auto
  with assms(3) show ?thesis by simp
qed

subsection \<open>The weights of optically\_thin\_weighting\<close>

lemma py_index_nat: "k < length xs \<Longrightarrow> py_index xs (int k) = Inr (xs ! k)"
  by (simp add: py_index_def py_pos_def)

lemma ot_weights_finite:
  assumes "R d = map Fin rs" and "Sigma_G d = map Fin gs" and "length rs = n" and "length gs = n"
    and "i < n" and "sorted_wrt (<) rs" and "\<forall>r\<in>set rs. 0 < r"
    and "\<forall>g\<in>set gs. 0 \<le> g" and "0 < gs ! i"
  shows "\<exists>ss t. 0 < t \<and> length ss = n \<and> t = sum_list (drop i ss) \<and>
           ot_weights d i = Inr (map Fin (map (\<lambda>j. if i \<le> j then ss ! j / t else 0) [0..<n]))"
proof -
  define ss where "ss = map2 (\<lambda>r g. r powr (3 / 2) * g) rs gs"
  define t where "t = sum_list (drop i ss)"
  have lss: "length ss = n"
    using assms(3,4) by (simp add: ss_def)
  have ssn: "ss ! j = rs ! j powr (3 / 2) * gs ! j" if "j < n" for j
    using that assms(3,4) by (simp add: ss_def)
  have nonneg: "\<forall>x\<in>set (drop i ss). 0 \<le> x"
  proof
    fix x assume "x \<in> set (drop i ss)"
    then have "x \<in> set ss"
      by (rule in_set_dropD)
    then obtain j where j: "j < n" "x = ss ! j"
      using lss by (auto simp: in_set_conv_nth)
    have "0 \<le> gs ! j"
      using assms(4,8) j(1) by simp
    then show "0 \<le> x"
      using j ssn by simp
  qed
  have "0 < rs ! i"
    using assms(3,5,7) by simp
  then have "0 < ss ! i"
    using ssn [OF assms(5)] assms(9) by simp
  then have "0 < drop i ss ! 0"
    using lss assms(5) by simp
  then have tpos: "0 < t"
    unfolding t_def using nonneg lss assms(5) by (intro sum_list_pos_nth [where k = 0]) auto
  have idx: "py_index (R d) (int i) = Inr (Fin (rs ! i))"
    using assms(1,3,5) by (simp add: py_index_nat)
  have mask: "ot_radii d (Fin (rs ! i)) = map (\<lambda>j. i \<le> j) [0..<n]"
  proof (rule nth_equalityI)
    show "length (ot_radii d (Fin (rs ! i))) = length (map (\<lambda>j. i \<le> j) [0..<n])"
      using assms(1,3) by (simp add: ot_radii_def)
  next
    fix j assume "j < length (ot_radii d (Fin (rs ! i)))"
    then have j: "j < n"
      using assms(1,3) by (simp add: ot_radii_def)
    have "(rs ! i \<le> rs ! j) = (i \<le> j)"
    proof (cases "i \<le> j")
      case True
      then have "i = j \<or> i < j"
        by auto
      then have "i = j \<or> rs ! i < rs ! j"
        using assms(3,6) j by (metis sorted_wrt_iff_nth_less)
      then show ?thesis
        using True by auto
    next
      case False
      then have "j < i"
        by simp
      then have "rs ! j < rs ! i"
        using assms(3,5,6) by (metis sorted_wrt_iff_nth_less)
      then show ?thesis
        using False by simp
    qed
    then show "ot_radii d (Fin (rs ! i)) ! j = map (\<lambda>j. i \<le> j) [0..<n] ! j"
      using assms(1,3) j by (simp add: ot_radii_def)
  qed
  have s: "map2 (\<lambda>r g. fmul (fpowr r (3 / 2)) g) (R d) (Sigma_G d) = map Fin ss"
  proof (rule nth_equalityI)
    show "length (map2 (\<lambda>r g. fmul (fpowr r (3 / 2)) g) (R d) (Sigma_G d)) = length (map Fin ss)"
      using assms(1-4) lss by simp
  next
    fix j assume "j < length (map2 (\<lambda>r g. fmul (fpowr r (3 / 2)) g) (R d) (Sigma_G d))"
    then have j: "j < n"
      using assms(1-4) by simp
    have "0 < rs ! j"
      using assms(3,7) j by simp
    then show "map2 (\<lambda>r g. fmul (fpowr r (3 / 2)) g) (R d) (Sigma_G d) ! j = map Fin ss ! j"
      using assms(1-4) j lss ssn by (simp add: fpowr_def)
  qed
  have "compress (map (\<lambda>j. i \<le> j) [0..<n]) (map Fin ss) = drop i (map Fin ss)"
    using lss by (intro compress_from_index) auto
  then have tot: "fsum (compress (map (\<lambda>j. i \<le> j) [0..<n]) (map Fin ss)) = Fin t"
    by (simp add: drop_map fsum_map_Fin t_def)
  have w: "map2 (\<lambda>w b. fmul w (of_bool_fl b)) (map (\<lambda>x. fdiv x (Fin t)) (map Fin ss))
             (map (\<lambda>j. i \<le> j) [0..<n])
           = map Fin (map (\<lambda>j. if i \<le> j then ss ! j / t else 0) [0..<n])"
    using lss tpos by (intro nth_equalityI) (auto simp: of_bool_fl_def)
  have "ot_weights d i = Inr (map Fin (map (\<lambda>j. if i \<le> j then ss ! j / t else 0) [0..<n]))"
    by (simp only: ot_weights_def idx bind_res_simps Let_def s mask tot w)
  with tpos lss t_def show ?thesis by blast
qed

lemma ot_weights_sum:
  assumes "R d = map Fin rs" and "Sigma_G d = map Fin gs" and "length rs = n" and "length gs = n"
    and "i < n" and "sorted_wrt (<) rs" and "\<forall>r\<in>set rs. 0 < r"
    and "\<forall>g\<in>set gs. 0 \<le> g" and "0 < gs ! i"
  shows "\<exists>w. ot_weights d i = Inr w \<and> length w = n \<and> fsum (drop i w) = Fin 1 \<and>
           (\<forall>j<i. w ! j = Fin 0)"
proof -
  from ot_weights_finite [OF assms]
  obtain ss t where t: "0 < t" "length ss = n" "t = sum_list (drop i ss)"
    and w: "ot_weights d i = Inr (map Fin (map (\<lambda>j. if i \<le> j then ss ! j / t else 0) [0..<n]))"
    by blast
  let ?w = "map Fin (map (\<lambda>j. if i \<le> j then ss ! j / t else 0) [0..<n])"
  have "drop i (map (\<lambda>j. if i \<le> j then ss ! j / t else 0) [0..<n]) = map (\<lambda>x. x / t) (drop i ss)"
    using t(2) assms(5) by (intro nth_equalityI) auto
  then have "fsum (drop i ?w) = Fin (sum_list (map (\<lambda>x. x / t) (drop i ss)))"
    by (simp add: drop_map fsum_map_Fin del: map_map)
  also have "\<dots> = Fin 1"
    using t(1,3) by (simp add: sum_list_divide)
  finally have "fsum (drop i ?w) = Fin 1" .
  moreover have "length ?w = n"
    by simp
  moreover have "\<forall>j<i. ?w ! j = Fin 0"
    using assms(5) by simp
  ultimately show ?thesis
    using w by blast
qed

text \<open>
  Claim C6. On a disc with positive, strictly increasing radii and non-negative finite gas
  surface densities, with gas at the transition annulus, the weights that
  \<open>optically_thin_weighting\<close> computes for its transition index sum to 1 over the annuli
  at or beyond that index and are exactly 0 at every annulus inside it.
\<close>

theorem ot_weights_normalised:
  assumes "wf_disc d n" and "i_max_of u prov d = Inr i" and "i < n"
    and "R d = map Fin rs" and "sorted_wrt (<) rs" and "\<forall>r\<in>set rs. 0 < r"
    and "Sigma_G d = map Fin gs" and "\<forall>g\<in>set gs. 0 \<le> g" and "0 < gs ! i"
  shows "\<exists>w. ot_weights d i = Inr w \<and> length w = n \<and> fsum (drop i w) = Fin 1 \<and>
           (\<forall>j<i. w ! j = Fin 0)"
proof -
  have "length rs = n" and "length gs = n"
    using assms(1,4,7) by (auto simp: wf_disc_def dest: arg_cong [where f = length])
  then show ?thesis
    using assms by (intro ot_weights_sum [where rs = rs and gs = gs]) auto
qed

lemma raw_rates_disc3:
  obtains K where "0 < K" and
    "unweighted_rates units0 prov2 disc3 False =
       Inr (([Fin K, Fin (5 * K), Fin (3 * K), Fin (2 * K)],
             map2 fmul (Sigma_G disc3) (annulus_areas units0 disc3)), prov2)"
proof -
  have k: "kind prov2 \<noteq> FixedExternalEvaporation"
    by (simp add: prov2_def)
  have "table_rates (PE_rate prov2) (table_key units0 prov2 disc3) (R disc3) (gas_present disc3)
          = [Fin 1, Fin 5, Fin 3, Fin 2]"
    by (simp add: table_rates_def lookup_rates_def table_key_def gas_present_def Let_def
        prov2_def disc3_def)
  then have "unweighted_rates units0 prov2 disc3 False =
       Inr (([Fin (Msun units0 / (2 * pi)), Fin (5 * (Msun units0 / (2 * pi))),
              Fin (3 * (Msun units0 / (2 * pi))), Fin (2 * (Msun units0 / (2 * pi)))],
             map2 fmul (Sigma_G disc3) (annulus_areas units0 disc3)), prov2)"
    by (simp add: unweighted_rates_table [OF k])
  moreover have "0 < Msun units0 / (2 * pi)"
    by (simp add: units0_def)
  ultimately show ?thesis
    using that by blast
qed

lemma i_max_disc3: "i_max_of units0 prov2 disc3 = Inr 1"
proof -
  obtain K where K: "0 < K" and
    r: "unweighted_rates units0 prov2 disc3 False =
       Inr (([Fin K, Fin (5 * K), Fin (3 * K), Fin (2 * K)],
             map2 fmul (Sigma_G disc3) (annulus_areas units0 disc3)), prov2)"
    by (rule raw_rates_disc3)
  show ?thesis
    using K by (simp add: i_max_of_def r bind_res_simps transition_index_def argmax_def)
qed

theorem ot_weights_normalised_witness:
  "i_max_of units0 prov2 disc3 = Inr 1 \<and>
   (\<exists>w. ot_weights disc3 1 = Inr w \<and> length w = 4 \<and> fsum (drop 1 w) = Fin 1 \<and> w ! 0 = Fin 0)"
proof -
  have "wf_disc disc3 4" and "(1::nat) < 4" and "R disc3 = map Fin [1, 2, 3, 4]"
    and "sorted_wrt (<) [1, 2, 3, 4::real]" and "\<forall>r\<in>set [1, 2, 3, 4::real]. 0 < r"
    and "Sigma_G disc3 = map Fin [1, 5, 3, 2]" and "\<forall>g\<in>set [1, 5, 3, 2::real]. 0 \<le> g"
    and "0 < [1, 5, 3, 2::real] ! 1"
    by (simp_all add: disc3_def wf_disc_def)
  from ot_weights_normalised [OF this(1) i_max_disc3 this(2-)]
  obtain w where "ot_weights disc3 1 = Inr w" "length w = 4" "fsum (drop 1 w) = Fin 1"
    "\<forall>j<1. w ! j = Fin 0"
    by blast
  then show ?thesis
    using i_max_disc3 by auto
qed

subsection \<open>Annulus areas\<close>

lemma annulus_areas_finite:
  assumes "R_edge d = map Fin es" and "length es = Suc n"
  shows "annulus_areas u d =
           map Fin (map (\<lambda>k. pi * (es ! Suc k * AU u * (es ! Suc k * AU u)
                                     - es ! k * AU u * (es ! k * AU u))) [0..<n])"
proof (rule nth_equalityI)
  show "length (annulus_areas u d) =
          length (map Fin (map (\<lambda>k. pi * (es ! Suc k * AU u * (es ! Suc k * AU u)
                                     - es ! k * AU u * (es ! k * AU u))) [0..<n]))"
    using assms by simp
next
  fix k assume "k < length (annulus_areas u d)"
  then have k: "k < n"
    using assms by simp
  then show "annulus_areas u d ! k =
          map Fin (map (\<lambda>k. pi * (es ! Suc k * AU u * (es ! Suc k * AU u)
                                     - es ! k * AU u * (es ! k * AU u))) [0..<n]) ! k"
    using assms by (simp add: annulus_areas_def Let_def nth_tl nth_butlast fsub_def)
qed

lemma annulus_areas_pos:
  assumes "R_edge d = map Fin es" and "length es = Suc n" and "sorted_wrt (<) es"
    and "\<forall>e\<in>set es. 0 \<le> e" and "0 < AU u"
  obtains as where "annulus_areas u d = map Fin as" and "length as = n" and "\<forall>a\<in>set as. 0 < a"
proof -
  let ?as = "map (\<lambda>k. pi * (es ! Suc k * AU u * (es ! Suc k * AU u)
                                     - es ! k * AU u * (es ! k * AU u))) [0..<n]"
  have "0 < ?as ! k" if "k < n" for k
  proof -
    have "es ! k < es ! Suc k"
      using assms(2,3) that by (simp add: sorted_wrt_iff_nth_less)
    moreover have "0 \<le> es ! k"
      using assms(2,4) that by simp
    ultimately have a: "0 \<le> es ! k * AU u" and b: "es ! k * AU u < es ! Suc k * AU u"
      using assms(5) by simp_all
    have "es ! k * AU u * (es ! k * AU u) < es ! Suc k * AU u * (es ! Suc k * AU u)"
      using b b a a by (rule mult_strict_mono')
    then show ?thesis
      using that by simp
  qed
  then have "\<forall>a\<in>set ?as. 0 < a"
    by (auto simp: in_set_conv_nth simp del: upt_Suc)
  moreover have "length ?as = n"
    by simp
  moreover have "annulus_areas u d = map Fin ?as"
    using assms(1,2) by (rule annulus_areas_finite)
  ultimately show ?thesis
    using that by blast
qed

subsection \<open>The gas step of weighted\_removal\<close>

lemma gas_removal_finite:
  assumes "annulus_areas u d = map Fin as" and "length as = n" and "\<forall>a\<in>set as. a \<noteq> 0"
    and "Sigma' d = map Fin sg" and "length sg = n" and "length ms = n"
  shows "gas_removal u d (map Fin ms) (Fin t) =
           map Fin (map (\<lambda>k. sg ! k - ms ! k * t / as ! k) [0..<n])"
  using assms by (intro nth_equalityI) (auto simp: gas_removal_def Let_def fsub_def)






subsection \<open>Cumulative sums\<close>

lemma cumsum_from_nth:
  "k < length xs \<Longrightarrow>
   cumsum_from (Fin a) (map Fin xs) ! k = Fin (a + sum_list (take (Suc k) xs))"
proof (induction xs arbitrary: a k)
  case Nil
  then show ?case by simp
next
  case (Cons x xs)
  then show ?case by (cases k) (auto simp: add.assoc)
qed

lemma cumsum_nth:
  "k < length xs \<Longrightarrow> cumsum (map Fin xs) ! k = Fin (sum_list (take (Suc k) xs))"
proof (cases xs)
  case Nil
  then show "k < length xs \<Longrightarrow> ?thesis" by simp
next
  case (Cons x xs')
  then show "k < length xs \<Longrightarrow> ?thesis"
    by (cases k) (auto simp: cumsum_from_nth)
qed

lemma rev_cumsum_nth:
  assumes "k < length xs"
  shows "rev (cumsum (rev (map Fin xs))) ! k = Fin (sum_list (drop k xs))"
proof -
  let ?n = "length xs"
  have "rev (cumsum (rev (map Fin xs))) ! k = cumsum (map Fin (rev xs)) ! (?n - Suc k)"
    using assms by (simp add: rev_nth rev_map)
  also have "\<dots> = Fin (sum_list (take (Suc (?n - Suc k)) (rev xs)))"
    using assms by (intro cumsum_nth) simp
  also have "take (Suc (?n - Suc k)) (rev xs) = rev (drop k xs)"
    using assms by (simp add: take_rev Suc_diff_Suc)
  finally show ?thesis
    by (simp add: sum_list_rev)
qed

lemma rev_cumsum_Fin:
  "rev (cumsum (rev (map Fin xs))) = map Fin (map (\<lambda>k. sum_list (drop k xs)) [0..<length xs])"
  by (rule nth_equalityI) (simp_all add: rev_cumsum_nth)

subsection \<open>Masks that are closed towards the outer edge\<close>

lemma upward_mask:
  assumes "\<forall>j k. j \<le> k \<and> k < length bs \<and> bs ! j \<longrightarrow> bs ! k"
  shows "\<exists>a. a \<le> length bs \<and> bs = replicate a False @ replicate (length bs - a) True"
  using assms
proof (induction bs)
  case Nil
  then show ?case by simp
next
  case (Cons b bs)
  show ?case
  proof (cases b)
    case True
    have "bs ! k" if "k < length bs" for k
      using Cons.prems [rule_format, of 0 "Suc k"] that True by simp
    then have "replicate (length bs) True = bs"
      by (intro nth_equalityI) auto
    then have "b # bs = replicate 0 False @ replicate (length (b # bs) - 0) True"
      using True by simp
    then show ?thesis by blast
  next
    case False
    have "\<forall>j k. j \<le> k \<and> k < length bs \<and> bs ! j \<longrightarrow> bs ! k"
    proof (intro allI impI)
      fix j k assume "j \<le> k \<and> k < length bs \<and> bs ! j"
      then show "bs ! k"
        using Cons.prems [rule_format, of "Suc j" "Suc k"] by simp
    qed
    from Cons.IH [OF this]
    obtain a where a: "a \<le> length bs" "bs = replicate a False @ replicate (length bs - a) True"
      by blast
    have "b # bs = False # (replicate a False @ replicate (length bs - a) True)"
      using False by (simp add: a(2) [symmetric])
    then have "b # bs = replicate (Suc a) False @ replicate (length (b # bs) - Suc a) True"
      by simp
    then show ?thesis
      using a(1) by (intro exI [of _ "Suc a"]) simp
  qed
qed

lemma upward_mask_nth:
  assumes "\<forall>j k. j \<le> k \<and> k < length bs \<and> bs ! j \<longrightarrow> bs ! k" and "k < length bs"
  shows "bs ! k = (length bs - length (filter id bs) \<le> k)"
proof -
  obtain a where a: "a \<le> length bs" "bs = replicate a False @ replicate (length bs - a) True"
    using upward_mask [OF assms(1)] by blast
  define c where "c = length bs - a"
  have bs: "bs = replicate a False @ replicate c True" and n: "length bs = a + c"
    using a by (simp_all add: c_def)
  have "filter id bs = replicate c True"
    by (subst bs) simp
  then have "length bs - length (filter id bs) = a"
    using n by simp
  moreover have "bs ! k = (a \<le> k)"
    using assms(2) n by (subst bs) (auto simp: nth_append)
  ultimately show ?thesis by simp
qed

lemma py_pos_from_end:
  "m < length xs \<Longrightarrow> py_pos xs (- (int m + 1)) = Some (length xs - m - 1)"
  by (auto simp: py_pos_def nat_diff_distrib')

lemma py_pos_from_end':
  "0 < m \<Longrightarrow> m \<le> length xs \<Longrightarrow> py_pos xs (- int m) = Some (length xs - m)"
  by (auto simp: py_pos_def nat_diff_distrib')

lemma py_pos_zero: "0 < length xs \<Longrightarrow> py_pos xs 0 = Some 0"
  by (simp add: py_pos_def)

subsection \<open>timescale\_remove, step by step\<close>

lemma timescale_remove_steps:
  assumes "get_timescale u prov d Track = Inr ((ev, mg, mt, Dt), prov')"
    and "excess_t = map (\<lambda>t'. fsub dt t') Dt"
    and "emp = map (\<lambda>e. fgt e (Fin 0)) excess_t"
    and "Sigma1 = mask_fill emp (Sigma' d) (Fin 0)"
    and "m = length (filter id emp)"
  shows "timescale_remove u prov d dt Track =
           (if m < length (Sigma_G d) then
              bind_res (py_index Sigma1 (- (int m + 1))) (\<lambda>s.
              bind_res (py_index excess_t (- (int m + 1))) (\<lambda>e.
              bind_res (py_index Dt (- (int m + 1))) (\<lambda>t0.
              bind_res (py_index Dt (- (int m + 1) + 1)) (\<lambda>t1.
              bind_res (py_update Sigma1 (- (int m + 1))
                          (fmul s (fdiv (fmul (Fin (- 1)) e) (fsub t0 t1)))) (\<lambda>Sigma2.
                Inr (d\<lparr>Sigma' := Sigma2\<rparr>, prov'))))))
            else Inr (d\<lparr>Sigma' := Sigma1\<rparr>, prov'))"
  using assms by (simp add: timescale_remove_def bind_res_simps Let_def)

lemma py_index_from_end:
  "m < length xs \<Longrightarrow> py_index xs (- (int m + 1)) = Inr (xs ! (length xs - m - 1))"
  unfolding py_index_def by (simp only: py_pos_from_end option.case)

lemma py_update_from_end:
  "m < length xs \<Longrightarrow> py_update xs (- (int m + 1)) v = Inr (xs[length xs - m - 1 := v])"
  unfolding py_update_def by (simp only: py_pos_from_end option.case)

lemma py_index_next:
  "m < length xs \<Longrightarrow>
   py_index xs (- (int m + 1) + 1) = Inr (xs ! (if m = 0 then 0 else length xs - m))"
  using py_pos_from_end' [of m xs] py_pos_zero [of xs]
  by (cases "m = 0") (simp_all add: py_index_def)

text \<open>What the marginal annulus is multiplied by: the annulus is the one at position
  \<open>n - m - 1\<close> for \<open>m\<close> emptied annuli, and the cumulative time subtracted from its own is
  read at position \<open>n - m\<close>, or at position 0 when \<open>m = 0\<close>.\<close>

lemma timescale_remove_finite:
  assumes "get_timescale u prov d Track = Inr ((ev, mg, mt, map Fin ts), prov')"
    and "length ts = n" and "length (Sigma_G d) = n" and "Sigma' d = map Fin sg"
    and "length sg = n"
    and "m = length (filter (\<lambda>x. x < t) ts)" and "m < n"
    and "k1 = (if m = 0 then 0 else n - m)"
    and "ts ! (n - m - 1) \<noteq> ts ! k1"
  shows "timescale_remove u prov d (Fin t) Track =
           Inr (d\<lparr>Sigma' := (mask_fill (map (\<lambda>x. x < t) ts) (map Fin sg) (Fin 0))
                     [n - m - 1 :=
                        fmul (mask_fill (map (\<lambda>x. x < t) ts) (map Fin sg) (Fin 0) ! (n - m - 1))
                          (Fin (- 1 * (t - ts ! (n - m - 1)) / (ts ! (n - m - 1) - ts ! k1)))]\<rparr>,
                prov')"
proof -
  let ?excess = "map Fin (map (\<lambda>x. t - x) ts)"
  let ?empty = "map (\<lambda>x. x < t) ts"
  let ?S1 = "mask_fill ?empty (map Fin sg) (Fin 0)"
  let ?h = "n - m - 1"
  have e1: "?excess = map (\<lambda>t'. fsub (Fin t) t') (map Fin ts)"
    by (simp add: fsub_def)
  have e2: "?empty = map (\<lambda>e. fgt e (Fin 0)) ?excess"
    by simp
  have e3: "?S1 = mask_fill ?empty (Sigma' d) (Fin 0)"
    by (simp add: assms(4))
  have e4: "m = length (filter id ?empty)"
    by (simp add: assms(6) filter_map comp_def)
  have h: "?h < n" and k1: "k1 < n"
    using assms(7,8) by auto
  have i1: "py_index ?S1 (- (int m + 1)) = Inr (?S1 ! ?h)"
    using assms(5,7) py_index_from_end [of m ?S1] by simp
  have i2: "py_index ?excess (- (int m + 1)) = Inr (Fin (t - ts ! ?h))"
    using assms(2,7) h py_index_from_end [of m ?excess] by simp
  have i3: "py_index (map Fin ts) (- (int m + 1)) = Inr (Fin (ts ! ?h))"
    using assms(2,7) h py_index_from_end [of m "map Fin ts"] by simp
  have i4: "py_index (map Fin ts) (- (int m + 1) + 1) = Inr (Fin (ts ! k1))"
    using assms(2,7,8) k1 py_index_next [of m "map Fin ts"] by auto
  have i5: "py_update ?S1 (- (int m + 1)) v = Inr (?S1[?h := v])" for v
    using assms(5,7) py_update_from_end [of m ?S1] by simp
  have f: "fdiv (fmul (Fin (- 1)) (Fin (t - ts ! ?h))) (fsub (Fin (ts ! ?h)) (Fin (ts ! k1)))
             = Fin (- 1 * (t - ts ! ?h) / (ts ! ?h - ts ! k1))"
    using assms(9) by (simp add: fsub_def)
  show ?thesis
    unfolding timescale_remove_steps [OF assms(1) e1 e2 e3 e4]
    using assms(3,7) by (simp only: i1 i2 i3 i4 i5 f bind_res_simps if_True)
qed

lemma timescale_remove_all_emptied:
  assumes "get_timescale u prov d Track = Inr ((ev, mg, mt, map Fin ts), prov')"
    and "length ts = n" and "length (Sigma_G d) = n" and "Sigma' d = map Fin sg"
    and "length (filter (\<lambda>x. x < t) ts) = n"
  shows "timescale_remove u prov d (Fin t) Track =
           Inr (d\<lparr>Sigma' := mask_fill (map (\<lambda>x. x < t) ts) (map Fin sg) (Fin 0)\<rparr>, prov')"
proof -
  let ?excess = "map Fin (map (\<lambda>x. t - x) ts)"
  let ?empty = "map (\<lambda>x. x < t) ts"
  let ?S1 = "mask_fill ?empty (map Fin sg) (Fin 0)"
  have e1: "?excess = map (\<lambda>t'. fsub (Fin t) t') (map Fin ts)"
    by (simp add: fsub_def)
  have e2: "?empty = map (\<lambda>e. fgt e (Fin 0)) ?excess"
    by simp
  have e3: "?S1 = mask_fill ?empty (Sigma' d) (Fin 0)"
    by (simp add: assms(4))
  have e4: "n = length (filter id ?empty)"
    by (simp add: assms(5) filter_map comp_def)
  show ?thesis
    unfolding timescale_remove_steps [OF assms(1) e1 e2 e3 e4]
    using assms(3) by simp
qed

lemma set_mask_fill: "set (mask_fill ms xs v) \<subseteq> insert v (set xs)"
  by (induction ms xs v rule: mask_fill.induct) auto

lemma timescale_remove_emptied:
  assumes gt: "get_timescale u prov d Track = Inr ((ev, mg, mt, map Fin ts), prov')"
    and len: "length ts = n" "length (Sigma_G d) = n" "length sg = n"
    and sg: "Sigma' d = map Fin sg" "\<forall>s\<in>set sg. 0 \<le> s"
    and mono: "\<forall>k. Suc k < n \<longrightarrow> ts ! Suc k \<le> ts ! k"
    and out: "0 < n" "ts ! (n - 1) < t"
  shows "\<exists>d'. timescale_remove u prov d (Fin t) Track = Inr (d', prov') \<and>
           (\<forall>x\<in>set (Sigma' d'). fge x (Fin 0))"
proof -
  let ?emp = "map (\<lambda>x. x < t) ts"
  let ?S1 = "mask_fill ?emp (map Fin sg) (Fin 0)"
  define m where "m = length (filter (\<lambda>x. x < t) ts)"
  have m_id: "m = length (filter id ?emp)"
    by (simp add: m_def filter_map comp_def)
  have mono': "ts ! k \<le> ts ! j" if "j \<le> k" "k < n" for j k
    using that
  proof (induction k)
    case 0
    then show ?case by simp
  next
    case (Suc k)
    show ?case
    proof (cases "j = Suc k")
      case True
      then show ?thesis by simp
    next
      case False
      then have "ts ! k \<le> ts ! j"
        using Suc by simp
      moreover have "ts ! Suc k \<le> ts ! k"
        using mono Suc.prems(2) by simp
      ultimately show ?thesis by simp
    qed
  qed
  have up: "\<forall>j k. j \<le> k \<and> k < length ?emp \<and> ?emp ! j \<longrightarrow> ?emp ! k"
  proof (intro allI impI)
    fix j k assume a: "j \<le> k \<and> k < length ?emp \<and> ?emp ! j"
    then have jk: "j \<le> k" "k < n" "j < n"
      using len(1) by simp_all
    have "ts ! k \<le> ts ! j"
      using jk by (intro mono')
    moreover have "ts ! j < t"
      using a jk len(1) by simp
    ultimately have "ts ! k \<le> ts ! j" and "ts ! j < t"
      by simp_all
    then show "?emp ! k"
      using a by simp
  qed
  have en: "(ts ! k < t) = (n - m \<le> k)" if "k < n" for k
    using upward_mask_nth [OF up, of k] that len(1) m_id by simp
  have mle: "m \<le> n"
    unfolding m_def using length_filter_le [of "\<lambda>x. x < t" ts] len(1) by simp
  have mpos: "0 < m"
    using en [of "n - 1"] out by auto
  have S1_nonneg: "\<forall>x\<in>set ?S1. fge x (Fin 0)"
  proof
    fix x assume "x \<in> set ?S1"
    then have "x = Fin 0 \<or> x \<in> set (map Fin sg)"
      using set_mask_fill by fastforce
    then show "fge x (Fin 0)"
      using sg(2) by (auto simp: fge_def)
  qed
  show ?thesis
  proof (cases "m < n")
    case False
    then have "length (filter (\<lambda>x. x < t) ts) = n"
      using mle by (simp add: m_def)
    from timescale_remove_all_emptied [OF gt len(1,2) sg(1) this]
    show ?thesis
      using S1_nonneg by simp
  next
    case True
    let ?h = "n - m - 1"
    define k1 where "k1 = (if m = 0 then 0 else n - m)"
    have k1: "k1 = n - m"
      using mpos by (simp add: k1_def)
    have h: "?h < n" "n - m < n" "Suc ?h = n - m"
      using True mpos by auto
    have lo: "ts ! (n - m) < t"
      using en [of "n - m"] h by simp
    have hi: "t \<le> ts ! ?h"
      using en [of ?h] h True mpos by auto
    have ne: "ts ! ?h \<noteq> ts ! k1"
      using lo hi k1 by auto
    have den: "0 < ts ! ?h - ts ! k1"
      using lo hi k1 by auto
    have "\<not> ts ! ?h < t"
      using hi by simp
    then have S1h: "?S1 ! ?h = Fin (sg ! ?h)"
      using h(1) len by (simp add: nth_mask_fill)
    have "0 \<le> sg ! ?h"
      using sg(2) h(1) len(3) by simp
    moreover have "0 \<le> - 1 * (t - ts ! ?h) / (ts ! ?h - ts ! k1)"
      using hi den by simp
    ultimately have "0 \<le> sg ! ?h * (- 1 * (t - ts ! ?h) / (ts ! ?h - ts ! k1))"
      by (rule mult_nonneg_nonneg)
    then have new: "fge (fmul (?S1 ! ?h) (Fin (- 1 * (t - ts ! ?h) / (ts ! ?h - ts ! k1)))) (Fin 0)"
      unfolding S1h fmul.simps fcmp_Fin .
    have "\<forall>x\<in>set (?S1[?h := fmul (?S1 ! ?h) (Fin (- 1 * (t - ts ! ?h) / (ts ! ?h - ts ! k1)))]).
            fge x (Fin 0)"
    proof
      fix x
      assume "x \<in> set (?S1[?h := fmul (?S1 ! ?h) (Fin (- 1 * (t - ts ! ?h) / (ts ! ?h - ts ! k1)))])"
      then have "x = fmul (?S1 ! ?h) (Fin (- 1 * (t - ts ! ?h) / (ts ! ?h - ts ! k1))) \<or> x \<in> set ?S1"
        using set_update_subset_insert by fastforce
      then show "fge x (Fin 0)"
        using new S1_nonneg by auto
    qed
    moreover have "timescale_remove u prov d (Fin t) Track =
           Inr (d\<lparr>Sigma' := ?S1[?h := fmul (?S1 ! ?h)
                          (Fin (- 1 * (t - ts ! ?h) / (ts ! ?h - ts ! k1)))]\<rparr>, prov')"
      using gt len(1,2) sg(1) len(3) m_def True k1_def ne by (rule timescale_remove_finite)
    ultimately show ?thesis by simp
  qed
qed

subsection \<open>get\_timescale on finite arrays\<close>

lemma length_compress: "length ms = length xs \<Longrightarrow> length (compress ms xs) = length (filter id ms)"
proof (induction ms arbitrary: xs)
  case Nil
  then show ?case by simp
next
  case (Cons b ms)
  then show ?case by (cases xs) auto
qed

lemma set_compressD:
  "x \<in> set (compress ms xs) \<Longrightarrow> \<exists>k. k < length ms \<and> k < length xs \<and> ms ! k \<and> x = xs ! k"
proof (induction ms xs rule: compress.induct)
  case (1 m ms x' xs)
  show ?case
  proof (cases "m \<and> x = x'")
    case True
    then have "0 < length (m # ms) \<and> 0 < length (x' # xs) \<and> (m # ms) ! 0 \<and> x = (x' # xs) ! 0"
      by simp
    then show ?thesis by blast
  next
    case False
    then have "x \<in> set (compress ms xs)"
      using "1.prems" by (auto split: if_splits)
    then obtain k where "k < length ms" "k < length xs" "ms ! k" "x = xs ! k"
      using "1.IH" by (cases m) auto
    then have "Suc k < length (m # ms) \<and> Suc k < length (x' # xs) \<and> (m # ms) ! Suc k \<and>
        x = (x' # xs) ! Suc k"
      by simp
    then show ?thesis by blast
  qed
qed simp_all

lemma map2_fdiv_Fin:
  "\<forall>x\<in>set b. x \<noteq> 0 \<Longrightarrow> map2 fdiv (map Fin a) (map Fin b) = map Fin (map2 (/) a b)"
proof (induction a arbitrary: b)
  case Nil
  then show ?case by simp
next
  case (Cons x a)
  then show ?case by (cases b) auto
qed

lemma get_timescale_Inr:
  assumes "get_timescale u prov d Track = Inr ((E, G, M, Dt), p)"
  shows "unweighted_rates u prov d Track = Inr ((E, G), p) \<and> length E = length (Sigma_G d)"
proof (cases "unweighted_rates u prov d Track")
  case (Inl e)
  then show ?thesis
    using assms by (simp add: get_timescale_def bind_res_simps)
next
  case (Inr r)
  obtain ev0 g0 p0 where r: "r = ((ev0, g0), p0)"
    by (metis prod.exhaust)
  show ?thesis
    using assms Inr r
    by (auto simp: get_timescale_def bind_res_simps Let_def gas_present_def split: if_splits)
qed

lemma unweighted_rates_dM_gas:
  assumes "unweighted_rates u prov d Track = Inr ((E, G), p)"
  shows "G = map2 fmul (Sigma_G d) (annulus_areas u d)"
proof (cases "mass_loss_rate u prov d (gas_present d)")
  case (Inl e)
  then show ?thesis
    using assms by (simp add: unweighted_rates_def bind_res_simps Let_def)
next
  case (Inr rates)
  then show ?thesis
    using assms
    by (auto simp: unweighted_rates_def bind_res_simps Let_def bind_res_def
        split: if_splits sum.splits)
qed

lemma get_timescale_steps:
  assumes "unweighted_rates u prov d Track = Inr ((E, G), p)"
    and "length E = length (gas_present d)"
    and "Dt_R = map2 fdiv (compress (gas_present d) G) (compress (gas_present d) E)"
    and "Dt_R' = Dt_R @ replicate (length (Sigma_G d) - length Dt_R) (Fin 0)"
    and "E' = E @ replicate (length (Sigma_G d) - length E) (Fin 0)"
  shows "get_timescale u prov d Track =
           Inr ((E', G, rev (cumsum (rev G)), rev (cumsum (rev Dt_R'))), p)"
  using assms by (simp add: get_timescale_def bind_res_simps Let_def)

lemma get_timescale_finite:
  assumes "unweighted_rates u prov d Track = Inr ((map Fin ev, map Fin mg), prov')"
    and "length ev = n" and "length mg = n" and "length (Sigma_G d) = n"
    and "\<forall>x\<in>set (compress (gas_present d) ev). x \<noteq> 0"
    and "dr = map2 (/) (compress (gas_present d) mg) (compress (gas_present d) ev)
               @ replicate (n - length (filter id (gas_present d))) 0"
  shows "get_timescale u prov d Track =
           Inr ((map Fin ev, map Fin mg, rev (cumsum (rev (map Fin mg))),
                 map Fin (map (\<lambda>k. sum_list (drop k dr)) [0..<n])), prov')"
    and "length dr = n"
proof -
  let ?ne = "gas_present d"
  have lne: "length ?ne = n"
    using assms(4) by (simp add: gas_present_def)
  have lc: "length (compress ?ne mg) = length (filter id ?ne)"
      "length (compress ?ne ev) = length (filter id ?ne)"
    using lne assms(2,3) by (simp_all add: length_compress)
  have "length (filter id ?ne) \<le> n"
    using length_filter_le [of id ?ne] lne by simp
  then show ldr: "length dr = n"
    using lc by (simp add: assms(6))
  have q: "map Fin (map2 (/) (compress ?ne mg) (compress ?ne ev))
             = map2 fdiv (compress ?ne (map Fin mg)) (compress ?ne (map Fin ev))"
    using assms(5) by (simp add: compress_map map2_fdiv_Fin)
  have pad: "map Fin dr = map Fin (map2 (/) (compress ?ne mg) (compress ?ne ev))
               @ replicate (length (Sigma_G d)
                    - length (map Fin (map2 (/) (compress ?ne mg) (compress ?ne ev)))) (Fin 0)"
    using lc assms(4) by (simp add: assms(6))
  have e: "map Fin ev = map Fin ev @ replicate (length (Sigma_G d) - length (map Fin ev)) (Fin 0)"
    using assms(2,4) by simp
  have l: "length (map Fin ev) = length ?ne"
    using assms(2) lne by simp
  have "rev (cumsum (rev (map Fin dr))) = map Fin (map (\<lambda>k. sum_list (drop k dr)) [0..<n])"
    using rev_cumsum_Fin [of dr] ldr by simp
  then show "get_timescale u prov d Track =
           Inr ((map Fin ev, map Fin mg, rev (cumsum (rev (map Fin mg))),
                 map Fin (map (\<lambda>k. sum_list (drop k dr)) [0..<n])), prov')"
    using get_timescale_steps [OF assms(1) l q pad e] by simp
qed

subsection \<open>The uniform disc of five annuli with the fixed-rate provider\<close>

lemma areas_disc5:
  "annulus_areas units0 disc5 =
     map Fin [2 * (pi * (AU units0)\<^sup>2), 4 * (pi * (AU units0)\<^sup>2), 6 * (pi * (AU units0)\<^sup>2),
              8 * (pi * (AU units0)\<^sup>2), 10 * (pi * (AU units0)\<^sup>2)]"
  by (simp add: annulus_areas_def disc5_def fsub_def power2_eq_square algebra_simps)


lemma rates_disc5_explicit:
  assumes "r = 1 / 10 ^ 8 * Msun units0 / (2 * pi)" and "a = pi * (AU units0)\<^sup>2"
  shows "0 < r" and "0 < a"
    and "annulus_areas units0 disc5 = map Fin [2 * a, 4 * a, 6 * a, 8 * a, 10 * a]"
    and "unweighted_rates units0 provF disc5 False =
           Inr ((map Fin [r, r, r, r, r], map Fin [20 * a, 40 * a, 60 * a, 80 * a, 100 * a]),
                provF)"
    and "unweighted_rates units0 provF disc5 True =
           Inr ((map Fin [r, r, r, r, r], map Fin [20 * a, 40 * a, 60 * a, 80 * a, 100 * a]),
                provF\<lparr>self_Mdot := Arr [Fin (1 / 10 ^ 8), Fin (r * (yr units0 / Msun units0))]\<rparr>)"
proof -
  show pos: "0 < r" "0 < a"
    by (simp_all add: assms units0_def)
  show ar: "annulus_areas units0 disc5 = map Fin [2 * a, 4 * a, 6 * a, 8 * a, 10 * a]"
    by (simp add: areas_disc5 assms)
  have ml: "mass_loss_rate units0 provF disc5 (gas_present disc5)
              = Inr [Fin (1 / 10 ^ 8), Fin (1 / 10 ^ 8), Fin (1 / 10 ^ 8), Fin (1 / 10 ^ 8),
                     Fin (1 / 10 ^ 8)]"
    by (simp add: mass_loss_rate_def provF_def disc5_def gas_present_def attr_mul_def)
  have dm: "map (\<lambda>m. fdiv (fmul m (Fin (Msun units0))) (Fin (2 * pi)))
              [Fin (1 / 10 ^ 8), Fin (1 / 10 ^ 8), Fin (1 / 10 ^ 8), Fin (1 / 10 ^ 8),
               Fin (1 / 10 ^ 8)] = map Fin [r, r, r, r, r]"
    by (simp add: assms)
  have mg: "map2 fmul (Sigma_G disc5) (annulus_areas units0 disc5)
              = map Fin [20 * a, 40 * a, 60 * a, 80 * a, 100 * a]"
    by (simp add: ar) (simp add: disc5_def)
  have ne: "gas_present disc5 = [True, True, True, True, True]"
    by (simp add: gas_present_def disc5_def)
  have last: "py_index (compress (gas_present disc5) (map Fin [r, r, r, r, r])) (- 1) = Inr (Fin r)"
    by (simp add: ne py_index_def py_pos_def)
  show "unweighted_rates units0 provF disc5 False =
           Inr ((map Fin [r, r, r, r, r], map Fin [20 * a, 40 * a, 60 * a, 80 * a, 100 * a]),
                provF)"
    by (simp only: unweighted_rates_def ml bind_res_simps Let_def dm mg if_False)
  have sm: "self_Mdot provF = Scalar (Fin (1 / 10 ^ 8))"
    by (simp add: provF_def)
  show "unweighted_rates units0 provF disc5 True =
           Inr ((map Fin [r, r, r, r, r], map Fin [20 * a, 40 * a, 60 * a, 80 * a, 100 * a]),
                provF\<lparr>self_Mdot := Arr [Fin (1 / 10 ^ 8), Fin (r * (yr units0 / Msun units0))]\<rparr>)"
    unfolding unweighted_rates_def
    by (simp only: ml bind_res_simps Let_def dm mg last if_True sm np_append_def attr.case
        fmul.simps)
       (simp add: ne)
qed

lemma upt_5: "[0..<5] = [0, 1, 2, 3, 4]"
  by (simp add: upt_rec)

lemma timescale_disc5_explicit:
  assumes "r = 1 / 10 ^ 8 * Msun units0 / (2 * pi)" and "a = pi * (AU units0)\<^sup>2"
    and "c = 20 * a / r"
  shows "0 < c"
    and "get_timescale units0 provF disc5 False =
      Inr ((map Fin [r, r, r, r, r], map Fin [20 * a, 40 * a, 60 * a, 80 * a, 100 * a],
            rev (cumsum (rev (map Fin [20 * a, 40 * a, 60 * a, 80 * a, 100 * a]))),
            map Fin [15 * c, 14 * c, 12 * c, 9 * c, 5 * c]), provF)"
    and "get_timescale units0 provF disc5 True =
      Inr ((map Fin [r, r, r, r, r], map Fin [20 * a, 40 * a, 60 * a, 80 * a, 100 * a],
            rev (cumsum (rev (map Fin [20 * a, 40 * a, 60 * a, 80 * a, 100 * a]))),
            map Fin [15 * c, 14 * c, 12 * c, 9 * c, 5 * c]),
           provF\<lparr>self_Mdot := Arr [Fin (1 / 10 ^ 8), Fin (r * (yr units0 / Msun units0))]\<rparr>)"
proof -
  note ra = rates_disc5_explicit [OF assms(1,2)]
  show c: "0 < c"
    using ra(1,2) by (simp add: assms(3))
  have ne: "gas_present disc5 = [True, True, True, True, True]"
    by (simp add: gas_present_def disc5_def)
  have dr: "[c, 2 * c, 3 * c, 4 * c, 5 * c] =
              map2 (/) (compress (gas_present disc5) [20 * a, 40 * a, 60 * a, 80 * a, 100 * a])
                (compress (gas_present disc5) [r, r, r, r, r])
              @ replicate (5 - length (filter id (gas_present disc5))) 0"
    using ra(1,2) by (simp add: ne assms(3))
  have nz: "\<forall>x\<in>set (compress (gas_present disc5) [r, r, r, r, r]). x \<noteq> 0"
    using ra(1) by (simp add: ne)
  have ts: "map (\<lambda>k. sum_list (drop k [c, 2 * c, 3 * c, 4 * c, 5 * c])) [0..<5]
              = [15 * c, 14 * c, 12 * c, 9 * c, 5 * c]"
    by (simp add: upt_5)
  have l: "length [r, r, r, r, r] = 5" "length [20 * a, 40 * a, 60 * a, 80 * a, 100 * a] = 5"
    "length (Sigma_G disc5) = 5"
    by (simp_all add: disc5_def)
  show "get_timescale units0 provF disc5 False =
      Inr ((map Fin [r, r, r, r, r], map Fin [20 * a, 40 * a, 60 * a, 80 * a, 100 * a],
            rev (cumsum (rev (map Fin [20 * a, 40 * a, 60 * a, 80 * a, 100 * a]))),
            map Fin [15 * c, 14 * c, 12 * c, 9 * c, 5 * c]), provF)"
    using get_timescale_finite(1) [OF ra(4) l nz dr] unfolding ts .
  show "get_timescale units0 provF disc5 True =
      Inr ((map Fin [r, r, r, r, r], map Fin [20 * a, 40 * a, 60 * a, 80 * a, 100 * a],
            rev (cumsum (rev (map Fin [20 * a, 40 * a, 60 * a, 80 * a, 100 * a]))),
            map Fin [15 * c, 14 * c, 12 * c, 9 * c, 5 * c]),
           provF\<lparr>self_Mdot := Arr [Fin (1 / 10 ^ 8), Fin (r * (yr units0 / Msun units0))]\<rparr>)"
    using get_timescale_finite(1) [OF ra(5) l nz dr] unfolding ts .
qed

lemma timescale_disc5:
  obtains c p' E G M where "0 < c"
    and "get_timescale units0 provF disc5 False =
           Inr ((E, G, M, map Fin [15 * c, 14 * c, 12 * c, 9 * c, 5 * c]), provF)"
    and "get_timescale units0 provF disc5 True =
           Inr ((E, G, M, map Fin [15 * c, 14 * c, 12 * c, 9 * c, 5 * c]), p')"
  using timescale_disc5_explicit [OF refl refl refl] that by blast

text \<open>
  Claim C2: what the code does. With \<open>dt\<close> half the depletion time of the outermost
  annulus no annulus is emptied, \<open>half_empty\<close> is \<open>-1\<close>, and \<open>Dt[half_empty + 1]\<close> is
  \<open>Dt[0]\<close>, the depletion time of the whole disc: the outermost \<open>Sigma\<close> is multiplied by
  \<open>(Dt[-1] - dt) / (Dt[-1] - Dt[0])\<close>, here \<open>-1/4\<close>, and ends at \<open>-5/2\<close>, not at 5. The
  interior annuli keep their 10.
\<close>

theorem half_depletion_step_disc5:
  "Sigma_after (half_depletion_step units0 provF disc5) =
     Inr [Fin 10, Fin 10, Fin 10, Fin 10, Fin (- 5 / 2)]"
proof -
  obtain c p' E G M where c: "0 < c"
    and g0: "get_timescale units0 provF disc5 False =
           Inr ((E, G, M, map Fin [15 * c, 14 * c, 12 * c, 9 * c, 5 * c]), provF)"
    and g1: "get_timescale units0 provF disc5 True =
           Inr ((E, G, M, map Fin [15 * c, 14 * c, 12 * c, 9 * c, 5 * c]), p')"
    using timescale_disc5 by metis
  have T: "outer_depletion_time units0 provF disc5 = Inr (Fin (5 * c))"
    by (simp add: outer_depletion_time_def g0 bind_res_simps py_index_def py_pos_def)
  have m: "0 = length (filter (\<lambda>x. x < 5 * c / 2) [15 * c, 14 * c, 12 * c, 9 * c, 5 * c])"
    using c by simp
  have k1: "(0::nat) = (if (0::nat) = 0 then 0 else 5 - 0)"
    by simp
  have ne: "[15 * c, 14 * c, 12 * c, 9 * c, 5 * c] ! (5 - 0 - 1)
              \<noteq> [15 * c, 14 * c, 12 * c, 9 * c, 5 * c] ! 0"
    using c by simp
  have sg: "Sigma' disc5 = map Fin [10, 10, 10, 10, 10]" "length (Sigma_G disc5) = 5"
    by (simp_all add: disc5_def)
  have f: "- 1 * (5 * c / 2 - 5 * c) / (5 * c - 15 * c) = - 1 / 4"
    using c by (simp add: field_simps)
  have "timescale_remove units0 provF disc5 (Fin (5 * c / 2)) True =
          Inr (disc5\<lparr>Sigma' := [Fin 10, Fin 10, Fin 10, Fin 10, Fin (- 5 / 2)]\<rparr>, p')"
    using timescale_remove_finite [OF g1 _ sg(2,1) _ m _ k1 ne] c f by simp
  then show ?thesis
    by (simp add: half_depletion_step_def T bind_res_simps Sigma_after_def)
qed

text \<open>
  Claim C3: what the code does. With \<open>dt = 0\<close> on the same disc \<open>timescale_remove\<close>
  multiplies the outermost \<open>Sigma\<close> by \<open>Dt[-1] / (Dt[-1] - Dt[0])\<close>, here \<open>-1/2\<close>: the array
  is not unchanged.
\<close>

theorem zero_step_disc5:
  "Sigma_after (timescale_remove units0 provF disc5 (Fin 0) True) =
     Inr [Fin 10, Fin 10, Fin 10, Fin 10, Fin (- 5)]"
proof -
  obtain c p' E G M where c: "0 < c"
    and g1: "get_timescale units0 provF disc5 True =
           Inr ((E, G, M, map Fin [15 * c, 14 * c, 12 * c, 9 * c, 5 * c]), p')"
    using timescale_disc5 by metis
  have m: "0 = length (filter (\<lambda>x. x < 0) [15 * c, 14 * c, 12 * c, 9 * c, 5 * c])"
    using c by (simp add: mult_less_0_iff)
  have k1: "(0::nat) = (if (0::nat) = 0 then 0 else 5 - 0)"
    by simp
  have ne: "[15 * c, 14 * c, 12 * c, 9 * c, 5 * c] ! (5 - 0 - 1)
              \<noteq> [15 * c, 14 * c, 12 * c, 9 * c, 5 * c] ! 0"
    using c by simp
  have sg: "Sigma' disc5 = map Fin [10, 10, 10, 10, 10]" "length (Sigma_G disc5) = 5"
    by (simp_all add: disc5_def)
  have f: "- 1 * (0 - 5 * c) / (5 * c - 15 * c) = - 1 / 2"
    using c by (simp add: field_simps)
  have "timescale_remove units0 provF disc5 (Fin 0) True =
          Inr (disc5\<lparr>Sigma' := [Fin 10, Fin 10, Fin 10, Fin 10, Fin (- 5)]\<rparr>, p')"
    using timescale_remove_finite [OF g1 _ sg(2,1) _ m _ k1 ne] c f
    by (simp add: mult_less_0_iff)
  then show ?thesis
    by (simp add: Sigma_after_def)
qed

subsection \<open>Non-negative surface densities\<close>

lemma sum_list_drop_step:
  "k < length xs \<Longrightarrow> sum_list (drop k xs) = xs ! k + sum_list (drop (Suc k) xs)"
  by (simp add: Cons_nth_drop_Suc [symmetric])

lemma sum_list_nonneg_real: "\<forall>x\<in>set xs. (0::real) \<le> x \<Longrightarrow> 0 \<le> sum_list xs"
  by (induction xs) auto

lemma timescale_remove_nonneg:
  assumes wf: "wf_disc d n" "0 < n"
    and sg: "Sigma' d = map Fin sg" "\<forall>s\<in>set sg. 0 \<le> s"
    and edges: "R_edge d = map Fin es" "sorted_wrt (<) es" "\<forall>e\<in>set es. 0 \<le> e" "0 < AU u"
    and gt: "get_timescale u prov d Track = Inr ((map Fin ev, dM_gas, M_tot, Dt), prov')"
    and gs: "Sigma_G d = map Fin gs" "\<forall>k<n. 0 < gs ! k \<longrightarrow> 0 < ev ! k"
    and out: "fgt (Fin t) (last Dt)"
  shows "\<exists>d'. timescale_remove u prov d (Fin t) Track = Inr (d', prov') \<and>
           (\<forall>x\<in>set (Sigma' d'). fge x (Fin 0))"
proof -
  let ?ne = "gas_present d"
  have len: "length (Sigma_G d) = n" "length (Sigma' d) = n" "length (R_edge d) = Suc n"
    using wf(1) by (simp_all add: wf_disc_def)
  have lgs: "length gs = n" and lsg: "length sg = n" and les: "length es = Suc n"
    using len gs(1) sg(1) edges(1) by (auto dest: arg_cong [where f = length])
  from get_timescale_Inr [OF gt]
  have ur: "unweighted_rates u prov d Track = Inr ((map Fin ev, dM_gas), prov')"
    and lev: "length ev = n"
    using len(1) by simp_all
  obtain as where as: "annulus_areas u d = map Fin as" "length as = n" "\<forall>a\<in>set as. 0 < a"
    using annulus_areas_pos [OF edges(1) les edges(2,3,4)] by blast
  define mg where "mg = map2 (*) gs as"
  have lmg: "length mg = n"
    using lgs as(2) by (simp add: mg_def)
  have "dM_gas = map2 fmul (Sigma_G d) (annulus_areas u d)"
    using ur by (rule unweighted_rates_dM_gas)
  also have "\<dots> = map Fin mg"
    using lgs as(2) by (intro nth_equalityI) (auto simp: gs(1) as(1) mg_def)
  finally have dM: "dM_gas = map Fin mg" .
  have ne_nth: "?ne ! k = (0 < gs ! k)" if "k < n" for k
    using that lgs by (simp add: gas_present_def gs(1))
  have lne: "length ?ne = n"
    using lgs by (simp add: gas_present_def gs(1))
  have pairs: "0 < p \<and> 0 < q" if "(p, q) \<in> set (zip (compress ?ne mg) (compress ?ne ev))" for p q
  proof -
    have "(p, q) \<in> set (compress ?ne (zip mg ev))"
      using that by (simp add: compress_zip)
    from set_compressD [OF this]
    obtain k where k: "k < length ?ne" "k < length (zip mg ev)" "?ne ! k" "(p, q) = zip mg ev ! k"
      by blast
    have kn: "k < n"
      using k(1) lne by simp
    then have "0 < gs ! k"
      using k(3) ne_nth by simp
    moreover have "0 < as ! k"
      using as(2,3) kn by simp
    ultimately have "0 < mg ! k" "0 < ev ! k"
      using gs(2) kn lgs as(2) by (simp_all add: mg_def)
    moreover have "zip mg ev ! k = (mg ! k, ev ! k)"
      using kn lmg lev by simp
    ultimately show ?thesis
      using k(4) by simp
  qed
  have nz: "\<forall>x\<in>set (compress ?ne ev). x \<noteq> 0"
  proof
    fix x assume "x \<in> set (compress ?ne ev)"
    from set_compressD [OF this]
    obtain k where k: "k < length ?ne" "k < length ev" "?ne ! k" "x = ev ! k"
      by blast
    have "k < n"
      using k(1) lne by simp
    then have "0 < ev ! k"
      using gs(2) ne_nth k(3) by simp
    then show "x \<noteq> 0"
      using k(4) by simp
  qed
  define dr where "dr = map2 (/) (compress ?ne mg) (compress ?ne ev)
                           @ replicate (n - length (filter id ?ne)) 0"
  have g: "get_timescale u prov d Track =
           Inr ((map Fin ev, map Fin mg, rev (cumsum (rev (map Fin mg))),
                 map Fin (map (\<lambda>k. sum_list (drop k dr)) [0..<n])), prov')"
    and ldr: "length dr = n"
    using get_timescale_finite [OF ur [unfolded dM] lev lmg len(1) nz dr_def] by simp_all
  define ts where "ts = map (\<lambda>k. sum_list (drop k dr)) [0..<n]"
  have Dt: "Dt = map Fin ts"
    using g gt by (simp add: ts_def)
  have lts: "length ts = n"
    by (simp add: ts_def)
  have dr_nonneg: "\<forall>x\<in>set dr. 0 \<le> x"
  proof
    fix x assume "x \<in> set dr"
    then have "x = 0 \<or> x \<in> set (map2 (/) (compress ?ne mg) (compress ?ne ev))"
      by (auto simp: dr_def)
    then show "0 \<le> x"
    proof
      assume "x = 0"
      then show ?thesis by simp
    next
      assume "x \<in> set (map2 (/) (compress ?ne mg) (compress ?ne ev))"
      then obtain p q where "(p, q) \<in> set (zip (compress ?ne mg) (compress ?ne ev))" "x = p / q"
        by auto
      then show ?thesis
        using pairs [of p q] by simp
    qed
  qed
  have mono: "\<forall>k. Suc k < n \<longrightarrow> ts ! Suc k \<le> ts ! k"
  proof (intro allI impI)
    fix k assume k: "Suc k < n"
    then have "ts ! k = dr ! k + ts ! Suc k"
      using ldr by (simp add: ts_def sum_list_drop_step)
    moreover have "0 \<le> dr ! k"
      using dr_nonneg k ldr by simp
    ultimately show "ts ! Suc k \<le> ts ! k"
      by simp
  qed
  have "map Fin ts \<noteq> []" and "n - 1 < length ts"
    using wf(2) lts by auto
  then have "last Dt = Fin (ts ! (n - 1))"
    using lts by (simp add: Dt last_conv_nth)
  then have o: "ts ! (n - 1) < t"
    using out by simp
  show ?thesis
    using gt [unfolded Dt] lts len(1) lsg sg mono wf(2) o by (rule timescale_remove_emptied)
qed

lemma weighted_removal_nonneg_iff:
  assumes wf: "wf_disc d n"
    and sg: "Sigma' d = map Fin sg"
    and edges: "R_edge d = map Fin es" "sorted_wrt (<) es" "\<forall>e\<in>set es. 0 \<le> e" "0 < AU u"
    and nd: "dusty d = None"
    and ot: "optically_thin_weighting u prov d Track = Inr ((map Fin ms, dM_gas), prov')"
    and lms: "length ms = n"
  shows "\<exists>d'. weighted_removal u prov d (Fin t) Track = Inr (d', prov') \<and>
           (\<forall>k<n. fge (Sigma' d' ! k) (Fin 0) =
                    fle (fmul (Fin (ms ! k)) (Fin t)) (fmul (Sigma' d ! k) (annulus_areas u d ! k)))"
proof -
  have les: "length es = Suc n" and lsg: "length sg = n"
    using wf sg edges(1) by (auto simp: wf_disc_def dest: arg_cong [where f = length])
  obtain as where as: "annulus_areas u d = map Fin as" "length as = n" "\<forall>a\<in>set as. 0 < a"
    using annulus_areas_pos [OF edges(1) les edges(2,3,4)] by blast
  then have nz: "\<forall>a\<in>set as. a \<noteq> 0"
    by auto
  let ?S = "gas_removal u d (map Fin ms) (Fin t)"
  have S: "?S = map Fin (map (\<lambda>k. sg ! k - ms ! k * t / as ! k) [0..<n])"
    using as(1,2) nz sg lsg lms by (rule gas_removal_finite)
  have wr: "weighted_removal u prov d (Fin t) Track = Inr (d\<lparr>Sigma' := ?S\<rparr>, prov')"
    using nd ot by (simp add: weighted_removal_def bind_res_simps)
  have "fge (?S ! k) (Fin 0) =
          fle (fmul (Fin (ms ! k)) (Fin t)) (fmul (Sigma' d ! k) (annulus_areas u d ! k))"
    if "k < n" for k
  proof -
    have "0 < as ! k"
      using as(2,3) that by simp
    then have "(0 \<le> sg ! k - ms ! k * t / as ! k) = (ms ! k * t \<le> sg ! k * as ! k)"
      by (simp add: field_simps)
    then show ?thesis
      using that lsg as(2) by (simp add: S sg as(1))
  qed
  then show ?thesis
    using wr by simp
qed

text \<open>
  Claim C1, as the code has it by design. On a disc with finite non-negative \<open>Sigma\<close> and
  non-negative, strictly increasing edges:
  \<^item> \<open>timescale_remove\<close>, when the raw rates are finite and positive wherever there is gas
    and \<open>dt\<close> exceeds the depletion time of the outermost annulus (so that at least one
    annulus is emptied), returns with every entry of \<open>Sigma\<close> non-negative;
  \<^item> \<open>weighted_removal\<close> on a disc without dust, for finite weighted rates, subtracts
    without any clamp: an entry of \<open>Sigma\<close> is non-negative afterwards exactly when the
    mass removed from the annulus, rate times \<open>dt\<close>, is at most \<open>Sigma\<close> times the area.
\<close>

theorem removal_nonnegative:
  assumes "wf_disc d n" and "0 < n"
    and "Sigma' d = map Fin sg" and "\<forall>s\<in>set sg. 0 \<le> s"
    and "R_edge d = map Fin es" and "sorted_wrt (<) es" and "\<forall>e\<in>set es. 0 \<le> e"
    and "0 < AU u"
  shows "(\<forall>ev gs dM_gas M_tot Dt prov'.
            get_timescale u prov d Track = Inr ((map Fin ev, dM_gas, M_tot, Dt), prov') \<and>
            Sigma_G d = map Fin gs \<and> (\<forall>k<n. 0 < gs ! k \<longrightarrow> 0 < ev ! k) \<and>
            fgt (Fin t) (last Dt) \<longrightarrow>
            (\<exists>d'. timescale_remove u prov d (Fin t) Track = Inr (d', prov') \<and>
                  (\<forall>x\<in>set (Sigma' d'). fge x (Fin 0)))) \<and>
         (\<forall>ms dM_gas prov'.
            dusty d = None \<and>
            optically_thin_weighting u prov d Track = Inr ((map Fin ms, dM_gas), prov') \<and>
            length ms = n \<longrightarrow>
            (\<exists>d'. weighted_removal u prov d (Fin t) Track = Inr (d', prov') \<and>
                  (\<forall>k<n. fge (Sigma' d' ! k) (Fin 0) =
                           fle (fmul (Fin (ms ! k)) (Fin t))
                             (fmul (Sigma' d ! k) (annulus_areas u d ! k)))))"
proof (intro conjI allI impI)
  fix ev gs dM_gas M_tot Dt prov'
  assume a: "get_timescale u prov d Track = Inr ((map Fin ev, dM_gas, M_tot, Dt), prov') \<and>
            Sigma_G d = map Fin gs \<and> (\<forall>k<n. 0 < gs ! k \<longrightarrow> 0 < ev ! k) \<and>
            fgt (Fin t) (last Dt)"
  then have "get_timescale u prov d Track = Inr ((map Fin ev, dM_gas, M_tot, Dt), prov')"
    and "Sigma_G d = map Fin gs" and "\<forall>k<n. 0 < gs ! k \<longrightarrow> 0 < ev ! k"
    and "fgt (Fin t) (last Dt)"
    by simp_all
  with assms show "\<exists>d'. timescale_remove u prov d (Fin t) Track = Inr (d', prov') \<and>
                  (\<forall>x\<in>set (Sigma' d'). fge x (Fin 0))"
    by (rule timescale_remove_nonneg)
next
  fix ms dM_gas prov'
  assume "dusty d = None \<and>
            optically_thin_weighting u prov d Track = Inr ((map Fin ms, dM_gas), prov') \<and>
            length ms = n"
  then have "dusty d = None"
    and "optically_thin_weighting u prov d Track = Inr ((map Fin ms, dM_gas), prov')"
    and "length ms = n"
    by simp_all
  with assms(1,3,5-8)
  show "\<exists>d'. weighted_removal u prov d (Fin t) Track = Inr (d', prov') \<and>
                  (\<forall>k<n. fge (Sigma' d' ! k) (Fin 0) =
                           fle (fmul (Fin (ms ! k)) (Fin t))
                             (fmul (Sigma' d ! k) (annulus_areas u d ! k)))"
    by (rule weighted_removal_nonneg_iff)
qed

subsection \<open>The uniform disc with a rate that grows with the radius\<close>

lemma rates_disc5_table:
  assumes "r = 1 / 10 ^ 8 * Msun units0 / (2 * pi)" and "a = pi * (AU units0)\<^sup>2"
  shows "unweighted_rates units0 provT disc5 False =
           Inr ((map Fin [r, 2 * r, 3 * r, 4 * r, 5 * r],
                 map Fin [20 * a, 40 * a, 60 * a, 80 * a, 100 * a]), provT)"
proof -
  have k: "kind provT \<noteq> FixedExternalEvaporation"
    by (simp add: provT_def)
  have "table_rates (PE_rate provT) (table_key units0 provT disc5) (R disc5) (gas_present disc5)
          = [Fin (1 / 10 ^ 8), Fin (2 * (1 / 10 ^ 8)), Fin (3 * (1 / 10 ^ 8)),
             Fin (4 * (1 / 10 ^ 8)), Fin (5 * (1 / 10 ^ 8))]"
    by (simp add: table_rates_def lookup_rates_def table_key_def gas_present_def Let_def
        provT_def disc5_def)
  moreover have "map2 fmul (Sigma_G disc5) (annulus_areas units0 disc5)
              = map Fin [20 * a, 40 * a, 60 * a, 80 * a, 100 * a]"
    by (simp add: rates_disc5_explicit(3) [OF assms]) (simp add: disc5_def)
  ultimately show ?thesis
    by (simp add: unweighted_rates_table [OF k] assms(1))
qed

lemma ot_weights_disc5: "ot_weights disc5 4 = Inr (map Fin [0, 0, 0, 0, 1])"
proof -
  have "\<exists>w. ot_weights disc5 4 = Inr w \<and> length w = 5 \<and> fsum (drop 4 w) = Fin 1 \<and>
           (\<forall>j<4. w ! j = Fin 0)"
    by (rule ot_weights_sum [where rs = "[1, 2, 3, 4, 5]" and gs = "[10, 10, 10, 10, 10]"])
       (simp_all add: disc5_def)
  then obtain w where w: "ot_weights disc5 4 = Inr w" "length w = 5" "fsum (drop 4 w) = Fin 1"
    "\<forall>j<4. w ! j = Fin 0"
    by blast
  have "w ! 4 # drop (Suc 4) w = drop 4 w"
    using w(2) by (intro Cons_nth_drop_Suc) simp
  moreover have "drop (Suc 4) w = []"
    using w(2) by simp
  ultimately have "drop 4 w = [w ! 4]"
    by simp
  then have "fadd (Fin 0) (w ! 4) = Fin 1"
    using w(3) by (simp add: fsum_def)
  then have w4: "w ! 4 = Fin 1"
    by (cases "w ! 4") auto
  have "w ! i = map Fin [0, 0, 0, 0, 1] ! i" if "i < 5" for i
  proof -
    from that consider "i = 0" | "i = 1" | "i = 2" | "i = 3" | "i = 4"
      by linarith
    then show ?thesis
      using w(4) w4 by cases simp_all
  qed
  then have "w = map Fin [0, 0, 0, 0, 1]"
    using w(2) by (intro nth_equalityI) simp_all
  with w(1) show ?thesis by simp
qed


lemma otw_disc5_table:
  assumes "r = 1 / 10 ^ 8 * Msun units0 / (2 * pi)" and "a = pi * (AU units0)\<^sup>2"
  shows "optically_thin_weighting units0 provT disc5 False =
           Inr ((map Fin [0, 0, 0, 0, 5 * r],
                 map Fin [20 * a, 40 * a, 60 * a, 80 * a, 100 * a]), provT)"
proof -
  have r: "0 < r"
    using rates_disc5_explicit(1) [OF assms] .
  note u = rates_disc5_table [OF assms]
  have ti: "transition_index (map Fin [r, 2 * r, 3 * r, 4 * r, 5 * r]) = Inr 4"
    using r by (simp add: transition_index_def argmax_def bind_res_simps)
  have mul: "np_mul (map Fin [r, 2 * r, 3 * r, 4 * r, 5 * r]) (map Fin [0, 0, 0, 0, 1])
               = Inr (map Fin [0, 0, 0, 0, 5 * r])"
    by (simp add: np_mul_def)
  have tot: "fsum (map Fin [0, 0, 0, 0, 5 * r]) = Fin (5 * r)"
    by (simp add: fsum_def)
  have eff: "map (fmul (Fin (5 * r))) (map Fin [0, 0, 0, 0, 1]) = map Fin [0, 0, 0, 0, 5 * r]"
    by simp
  show ?thesis
    unfolding optically_thin_weighting_def
    by (simp only: u bind_res_simps prod.case ti ot_weights_disc5 mul tot eff Let_def if_False)
qed

text \<open>The transition index of that disc is the outermost annulus.\<close>

lemma i_max_disc5_table: "i_max_of units0 provT disc5 = Inr 4"
proof -
  have r: "0 < 1 / 10 ^ 8 * Msun units0 / (2 * pi)"
    using rates_disc5_explicit(1) [OF refl refl] .
  show ?thesis
    unfolding i_max_of_def
    using r by (simp add: rates_disc5_table [OF refl refl] bind_res_simps transition_index_def
        argmax_def)
qed

text \<open>
  \<open>weighted_removal\<close> has no clamp. On the uniform disc of five annuli, with a table rate
  of \<open>1e-8 * R\<close> and \<open>dt = 1e5\<close>, the whole rate falls on the outermost annulus, which ends
  with a negative \<open>Sigma\<close>.
\<close>

theorem weighted_removal_negative:
  "Sigma_after (weighted_removal units0 provT disc5 (Fin (10 ^ 5)) False) =
     Inr [Fin 10, Fin 10, Fin 10, Fin 10,
          Fin (10 - 5 * (1 / 10 ^ 8 * Msun units0 / (2 * pi)) * 10 ^ 5
                      / (10 * (pi * (AU units0)\<^sup>2)))] \<and>
   10 - 5 * (1 / 10 ^ 8 * Msun units0 / (2 * pi)) * 10 ^ 5 / (10 * (pi * (AU units0)\<^sup>2)) < 0"
proof -
  define r where "r = 1 / 10 ^ 8 * Msun units0 / (2 * pi)"
  define a where "a = pi * (AU units0)\<^sup>2"
  note ra = rates_disc5_explicit [OF r_def a_def]
  note ot = otw_disc5_table [OF r_def a_def]
  have nd: "dusty disc5 = None" and sg: "Sigma' disc5 = map Fin [10, 10, 10, 10, 10]"
    by (simp_all add: disc5_def)
  have nz: "\<forall>x\<in>set [2 * a, 4 * a, 6 * a, 8 * a, 10 * a]. x \<noteq> 0"
    using ra(2) by simp
  have "gas_removal units0 disc5 (map Fin [0, 0, 0, 0, 5 * r]) (Fin (10 ^ 5)) =
          map Fin (map (\<lambda>k. [10, 10, 10, 10, 10] ! k - [0, 0, 0, 0, 5 * r] ! k * 10 ^ 5
                                 / [2 * a, 4 * a, 6 * a, 8 * a, 10 * a] ! k) [0..<5])"
    by (rule gas_removal_finite [OF ra(3) _ nz sg]) simp_all
  then have gr: "gas_removal units0 disc5 (map Fin [0, 0, 0, 0, 5 * r]) (Fin (10 ^ 5)) =
          [Fin 10, Fin 10, Fin 10, Fin 10, Fin (10 - 5 * r * 10 ^ 5 / (10 * a))]"
    by (simp add: upt_5)
  have W: "weighted_removal units0 provT disc5 (Fin (10 ^ 5)) False =
          Inr (disc5\<lparr>Sigma' := gas_removal units0 disc5 (map Fin [0, 0, 0, 0, 5 * r])
                                  (Fin (10 ^ 5))\<rparr>, provT)"
    unfolding weighted_removal_def by (simp only: ot bind_res_simps prod.case nd option.case)
  have 1: "Sigma_after (weighted_removal units0 provT disc5 (Fin (10 ^ 5)) False) =
      Inr [Fin 10, Fin 10, Fin 10, Fin 10, Fin (10 - 5 * r * 10 ^ 5 / (10 * a))]"
    unfolding W gr Sigma_after_def by simp
  have "pi * pi < 4 * 4"
    using pi_less_4 pi_gt_zero by (intro mult_strict_mono) simp_all
  then have "20 * (pi * pi) * (AU units0)\<^sup>2 < 320 * (AU units0)\<^sup>2"
    by (simp add: units0_def)
  also have "\<dots> < 5 / 10 ^ 4 * Msun units0"
    by (simp add: units0_def)
  finally have "20 * (pi * pi) * (AU units0)\<^sup>2 < 5 / 10 ^ 4 * Msun units0" .
  moreover have "5 * r * 10 ^ 5 / (10 * a) = 5 / 10 ^ 4 * Msun units0 / (2 * (pi * pi) * (AU units0)\<^sup>2)"
    by (simp add: r_def a_def)
  moreover have "0 < 2 * (pi * pi) * (AU units0)\<^sup>2"
    by (simp add: units0_def)
  ultimately have "10 < 5 * r * 10 ^ 5 / (10 * a)"
    by (simp add: pos_less_divide_eq)
  then have 2: "10 - 5 * r * 10 ^ 5 / (10 * a) < 0"
    by simp
  from 1 2 show ?thesis
    unfolding r_def a_def by simp
qed

theorem removal_nonnegative_witness:
  "(\<exists>d' p. timescale_remove units0 provF disc5
             (Fin (6 * (20 * (pi * (AU units0)\<^sup>2) / (1 / 10 ^ 8 * Msun units0 / (2 * pi))))) True
           = Inr (d', p) \<and> (\<forall>x\<in>set (Sigma' d'). fge x (Fin 0))) \<and>
   (\<exists>d'. weighted_removal units0 provT disc5 (Fin 1) False = Inr (d', provT) \<and>
         fge (Sigma' d' ! 0) (Fin 0))"
proof -
  define r where "r = 1 / 10 ^ 8 * Msun units0 / (2 * pi)"
  define a where "a = pi * (AU units0)\<^sup>2"
  define c where "c = 20 * a / r"
  note ra = rates_disc5_explicit [OF r_def a_def]
  note ts = timescale_disc5_explicit [OF r_def a_def c_def]
  have base: "wf_disc disc5 5" "(0::nat) < 5" "Sigma' disc5 = map Fin [10, 10, 10, 10, 10]"
    "\<forall>s\<in>set [10, 10, 10, 10, 10::real]. 0 \<le> s"
    "R_edge disc5 = map Fin [1/2, 3/2, 5/2, 7/2, 9/2, 11/2]"
    "sorted_wrt (<) [1/2, 3/2, 5/2, 7/2, 9/2, 11/2::real]"
    "\<forall>e\<in>set [1/2, 3/2, 5/2, 7/2, 9/2, 11/2::real]. 0 \<le> e" "0 < AU units0"
    by (simp_all add: disc5_def wf_disc_def units0_def)
  have pos: "0 < [r, r, r, r, r] ! k" if "k < 5" for k
  proof -
    from that consider "k = 0" | "k = 1" | "k = 2" | "k = 3" | "k = 4"
      by linarith
    then show ?thesis
      using ra(1) by cases simp_all
  qed
  have h2: "Sigma_G disc5 = map Fin [10, 10, 10, 10, 10]"
    by (simp add: disc5_def)
  have h3: "\<forall>k<5. 0 < [10, 10, 10, 10, 10::real] ! k \<longrightarrow> 0 < [r, r, r, r, r] ! k"
    using pos by blast
  have h4: "fgt (Fin (6 * c)) (last (map Fin [15 * c, 14 * c, 12 * c, 9 * c, 5 * c]))"
    using ts(1) by simp
  have h: "get_timescale units0 provF disc5 True =
             Inr ((map Fin [r, r, r, r, r], map Fin [20 * a, 40 * a, 60 * a, 80 * a, 100 * a],
                   rev (cumsum (rev (map Fin [20 * a, 40 * a, 60 * a, 80 * a, 100 * a]))),
                   map Fin [15 * c, 14 * c, 12 * c, 9 * c, 5 * c]),
                  provF\<lparr>self_Mdot := Arr [Fin (1 / 10 ^ 8), Fin (r * (yr units0 / Msun units0))]\<rparr>) \<and>
           Sigma_G disc5 = map Fin [10, 10, 10, 10, 10] \<and>
           (\<forall>k<5. 0 < [10, 10, 10, 10, 10::real] ! k \<longrightarrow> 0 < [r, r, r, r, r] ! k) \<and>
           fgt (Fin (6 * c)) (last (map Fin [15 * c, 14 * c, 12 * c, 9 * c, 5 * c]))"
    using ts(3) h2 h3 h4 by (intro conjI)
  from removal_nonnegative [OF base, of provF True "6 * c"] h
  have "\<exists>d'. timescale_remove units0 provF disc5 (Fin (6 * c)) True =
               Inr (d', provF\<lparr>self_Mdot := Arr [Fin (1 / 10 ^ 8), Fin (r * (yr units0 / Msun units0))]\<rparr>) \<and>
             (\<forall>x\<in>set (Sigma' d'). fge x (Fin 0))"
    by blast
  then have 1: "\<exists>d' p. timescale_remove units0 provF disc5 (Fin (6 * c)) True = Inr (d', p) \<and>
                  (\<forall>x\<in>set (Sigma' d'). fge x (Fin 0))"
    by blast
  have nd: "dusty disc5 = None"
    by (simp add: disc5_def)
  have w: "dusty disc5 = None \<and>
            optically_thin_weighting units0 provT disc5 False =
              Inr ((map Fin [0, 0, 0, 0, 5 * r],
                    map Fin [20 * a, 40 * a, 60 * a, 80 * a, 100 * a]), provT) \<and>
            length [0, 0, 0, 0, 5 * r] = 5"
    using nd otw_disc5_table [OF r_def a_def] by (intro conjI) simp_all
  from removal_nonnegative [OF base, of provT False 1] w
  obtain d' where d': "weighted_removal units0 provT disc5 (Fin 1) False = Inr (d', provT)"
    and iff: "\<forall>k<5. fge (Sigma' d' ! k) (Fin 0) =
                fle (fmul (Fin ([0, 0, 0, 0, 5 * r] ! k)) (Fin 1))
                  (fmul (Sigma' disc5 ! k) (annulus_areas units0 disc5 ! k))"
    by blast
  have "fge (Sigma' d' ! 0) (Fin 0)"
    using iff [rule_format, of 0] ra(2) by (simp add: ra(3)) (simp add: disc5_def)
  with d' have 2: "\<exists>d'. weighted_removal units0 provT disc5 (Fin 1) False = Inr (d', provT) \<and>
         fge (Sigma' d' ! 0) (Fin 0)"
    by blast
  from 1 2 show ?thesis
    unfolding c_def r_def a_def by blast
qed

text \<open>With \<open>dt = 0\<close> the weighted strategy leaves a disc without dust as it is (finite
  weighted rates and \<open>Sigma\<close>, positive areas).\<close>

lemma weighted_removal_zero_step:
  assumes "wf_disc d n" and "Sigma' d = map Fin sg"
    and "R_edge d = map Fin es" and "sorted_wrt (<) es" and "\<forall>e\<in>set es. 0 \<le> e" and "0 < AU u"
    and "dusty d = None"
    and "optically_thin_weighting u prov d Track = Inr ((map Fin ms, dM_gas), prov')"
    and "length ms = n"
  shows "weighted_removal u prov d (Fin 0) Track = Inr (d, prov')"
proof -
  have les: "length es = Suc n" and lsg: "length sg = n"
    using assms(1,2,3) by (auto simp: wf_disc_def dest: arg_cong [where f = length])
  obtain as where as: "annulus_areas u d = map Fin as" "length as = n" "\<forall>a\<in>set as. 0 < a"
    using annulus_areas_pos [OF assms(3) les assms(4,5,6)] by blast
  then have nz: "\<forall>a\<in>set as. a \<noteq> 0"
    by auto
  have "gas_removal u d (map Fin ms) (Fin 0) = map Fin (map (\<lambda>k. sg ! k - ms ! k * 0 / as ! k) [0..<n])"
    using as(1,2) nz assms(2) lsg assms(9) by (rule gas_removal_finite)
  also have "\<dots> = map Fin sg"
    using lsg by (intro nth_equalityI) simp_all
  finally have "gas_removal u d (map Fin ms) (Fin 0) = Sigma' d"
    by (simp add: assms(2))
  then show ?thesis
    using assms(7,8) by (simp add: weighted_removal_def bind_res_simps)
qed

end
